theory Spec2Isabelle
  imports Main "HOL-Library.Word"
begin

unbundle bit_operations_syntax

section \<open>MCP-CAN-Boot flash application: the bootloader dialogue\<close>

text \<open>
  A shallow embedding of \<^verbatim>\<open>src/flash-app.js\<close>: the frame handler
  \<^verbatim>\<open>handleCanMsg\<close> of class \<^verbatim>\<open>FlashApp\<close> and the methods it calls
  (\<^verbatim>\<open>onFlashReady\<close>, \<^verbatim>\<open>readForVerify\<close>, \<^verbatim>\<open>readDone\<close>,
  \<^verbatim>\<open>sendStartApp\<close>, \<^verbatim>\<open>sendSetFlashAddress\<close>, \<^verbatim>\<open>exit\<close>) and the ping timer
  installed by the constructor.

  The object \<^verbatim>\<open>this\<close> is a record that every method takes and returns. What a method
  does to the outside world (frames handed to \<^verbatim>\<open>this.can.send\<close>, lines written to the
  console, the hex data written by \<^verbatim>\<open>readDone\<close>) is returned as a list of events, in the
  order of the calls. Console lines are events without their text, and the time stamp
  \<^verbatim>\<open>flashStartTs\<close>, which is read for those lines only, is left out.
\<close>

subsection \<open>JavaScript values\<close>

text \<open>
  A byte of a \<^verbatim>\<open>Buffer\<close> is an \<open>8 word\<close>. Reading a \<^verbatim>\<open>Buffer\<close> or an array
  outside its range gives \<^verbatim>\<open>undefined\<close>, which is \<open>None\<close> here.
  The numbers that come from the command line went through \<^verbatim>\<open>parseInt\<close>, so they are
  an integer or \<^verbatim>\<open>NaN\<close>.
\<close>

type_synonym byte = "8 word"

datatype jsnum = NaN | Num int

definition at :: "'a list \<Rightarrow> nat \<Rightarrow> 'a option" where
  "at xs i = (if i < length xs then Some (xs ! i) else None)"

text \<open>\<^verbatim>\<open>ToInt32\<close>, the conversion the bitwise operators of JavaScript apply to their operands.\<close>

definition toInt32 :: "jsnum \<Rightarrow> 32 word" where
  "toInt32 x = (case x of NaN \<Rightarrow> 0 | Num n \<Rightarrow> word_of_int n)"

text \<open>\<^verbatim>\<open>b << n\<close> for a byte \<open>b\<close>: the result is a signed 32-bit integer.\<close>

definition shl :: "byte \<Rightarrow> nat \<Rightarrow> int" where
  "shl b n = sint (push_bit n (ucast b :: 32 word))"

text \<open>\<^verbatim>\<open>(addr >> n) & 0xFF\<close>, stored into a \<^verbatim>\<open>Buffer\<close>.\<close>

definition addrByte :: "nat \<Rightarrow> nat \<Rightarrow> byte" where
  "addrByte addr n = ucast (signed_drop_bit n (word_of_nat addr :: 32 word) AND 0xFF)"

subsection \<open>Constants\<close>

definition BOOTLOADER_CMD_VERSION :: byte where "BOOTLOADER_CMD_VERSION = 0x01"

definition CAN_DATA_BYTE_MCU_ID_MSB :: nat where "CAN_DATA_BYTE_MCU_ID_MSB = 0"
definition CAN_DATA_BYTE_MCU_ID_LSB :: nat where "CAN_DATA_BYTE_MCU_ID_LSB = 1"
definition CAN_DATA_BYTE_CMD :: nat where "CAN_DATA_BYTE_CMD = 2"
definition CAN_DATA_BYTE_LEN_AND_ADDR :: nat where "CAN_DATA_BYTE_LEN_AND_ADDR = 3"

definition CMD_PING :: byte where "CMD_PING = 0x00"
definition CMD_BOOTLOADER_START :: byte where "CMD_BOOTLOADER_START = 0x02"
definition CMD_FLASH_INIT :: byte where "CMD_FLASH_INIT = 0x06"
definition CMD_FLASH_READY :: byte where "CMD_FLASH_READY = 0x04"
definition CMD_FLASH_SET_ADDRESS :: byte where "CMD_FLASH_SET_ADDRESS = 0x0A"
definition CMD_FLASH_ADDRESS_ERROR :: byte where "CMD_FLASH_ADDRESS_ERROR = 0x0B"
definition CMD_FLASH_DATA :: byte where "CMD_FLASH_DATA = 0x08"
definition CMD_FLASH_DATA_ERROR :: byte where "CMD_FLASH_DATA_ERROR = 0x0D"
definition CMD_FLASH_DONE :: byte where "CMD_FLASH_DONE = 0x10"
definition CMD_FLASH_DONE_VERIFY :: byte where "CMD_FLASH_DONE_VERIFY = 0x50"
definition CMD_FLASH_ERASE :: byte where "CMD_FLASH_ERASE = 0x20"
definition CMD_FLASH_READ :: byte where "CMD_FLASH_READ = 0x40"
definition CMD_FLASH_READ_DATA :: byte where "CMD_FLASH_READ_DATA = 0x48"
definition CMD_FLASH_READ_ADDRESS_ERROR :: byte where "CMD_FLASH_READ_ADDRESS_ERROR = 0x4B"
definition CMD_START_APP :: byte where "CMD_START_APP = 0x80"

datatype session_state = STATE_INIT | STATE_FLASHING | STATE_READING

subsection \<open>Frames, events and the application object\<close>

text \<open>A received message: \<^verbatim>\<open>msg.id\<close> and \<^verbatim>\<open>msg.data\<close>, a \<^verbatim>\<open>Buffer\<close> of any length.\<close>

record can_msg =
  msg_id :: int
  msg_data :: "byte list"

text \<open>The argument of \<^verbatim>\<open>this.can.send\<close>.\<close>

record frame =
  frame_id :: jsnum
  ext :: bool
  rtr :: bool
  frame_data :: "byte list"

text \<open>One constructor for each place that writes to the console.\<close>

datatype log =
    SignatureMismatch
  | SignatureExpected
  | VersionForcedWarning
  | VersionError
  | EnteringFlashMode
  | StoppedPing
  | QueryingBootloaderSize
  | ErasingFlash
  | BeginFlashing
  | BootloaderSize int
  | ReadSizeWarning int int
  | UnexpectedAddressErrorInInit
  | UnexpectedMessage byte
  | FlashDataError
  | CanBusIssuesHint
  | FlashAddressError
  | HexFileHint
  | FlashDone
  | McuStartingApp
  | StartReadingToVerify
  | UnexpectedReadAddress
  | WillAbort
  | GotFlashData nat
  | VerifyFailed nat
  | TryingToStartApp
  | ReadFailedDuringVerify
  | VerifyDone
  | ReadingDone
  | StartingApp
  | SettingAddressVerbose nat
  | AllDataTransmitted
  | SettingFlashAddress nat
  | SendingFlashData nat

text \<open>
  What a handler does to the outside: a frame sent, a console line, a call of the progress
  bar, and the bytes that \<^verbatim>\<open>readDone\<close> puts into the one block at address 0 of the
  memory map it prints or writes as Intel HEX.
\<close>

datatype event =
    Send frame
  | Log log
  | ProgressStart int
  | ProgressIncrement nat
  | ProgressStop
  | WriteHex "byte list"

text \<open>
  The process: running, ended by \<^verbatim>\<open>process.exit(code)\<close>, or ended by a
  \<^verbatim>\<open>TypeError\<close> that nothing catches (an element read from \<^verbatim>\<open>undefined\<close>).
\<close>

datatype process = Running | Exited int | TypeError

text \<open>
  The options of the command line that the dialogue reads (\<^verbatim>\<open>this.args\<close>);
  \<open>arg_r\<close> and \<open>arg_F\<close> are the options \<^verbatim>\<open>r\<close> (\<open>None\<close> when it is
  \<^verbatim>\<open>undefined\<close>) and \<^verbatim>\<open>F\<close>, and \<open>ping\<close> is \<open>None\<close> when no interval is set.
\<close>

record args =
  mcuid :: jsnum
  arg_r :: "jsnum option"
  arg_F :: bool
  canIdMcu :: jsnum
  canIdRemote :: jsnum
  sff :: bool
  ping :: "int option"
  verbose :: bool

text \<open>
  The fields of \<^verbatim>\<open>this\<close>. The memory map is the list of its blocks, each a start
  address with its bytes; \<^verbatim>\<open>memMapKeys\<close>, an iterator, is the list of the keys it has
  not yet produced; \<^verbatim>\<open>memMapCurrentKey\<close> is \<open>None\<close> for \<^verbatim>\<open>null\<close>;
  \<^verbatim>\<open>pingInterval\<close> tells whether the interval timer is installed.
\<close>

record flash_app =
  args :: args
  doProgress :: bool
  mcuId :: "byte \<times> byte"
  doErase :: bool
  doRead :: bool
  doVerify :: bool
  state :: session_state
  deviceSignature :: "byte \<times> byte \<times> byte"
  deviceFlashSize :: int
  memMap :: "(nat \<times> byte list) list"
  memMapKeys :: "nat list"
  memMapCurrentKey :: "nat option"
  memMapCurrentDataIdx :: nat
  memMapTotalBytes :: nat
  curAddr :: nat
  readDataArr :: "byte option list"
  pingInterval :: bool
  proc :: process

subsection \<open>Sending\<close>

definition mkFrame :: "flash_app \<Rightarrow> byte list \<Rightarrow> frame" where
  "mkFrame a bytes =
     \<lparr>frame_id = canIdRemote (args a), ext = (\<not> sff (args a)), rtr = False,
      frame_data = bytes\<rparr>"

definition cmdFrame :: "flash_app \<Rightarrow> byte \<Rightarrow> frame" where
  "cmdFrame a cmd =
     mkFrame a [fst (mcuId a), snd (mcuId a), cmd, 0x00, 0x00, 0x00, 0x00, 0x00]"

definition addrFrame :: "flash_app \<Rightarrow> byte \<Rightarrow> nat \<Rightarrow> frame" where
  "addrFrame a cmd addr =
     mkFrame a [fst (mcuId a), snd (mcuId a), cmd, 0x00,
       addrByte addr 24, addrByte addr 16, addrByte addr 8, addrByte addr 0]"

definition sendStartApp :: "flash_app \<Rightarrow> event list" where
  "sendStartApp a = [Log StartingApp, Send (cmdFrame a CMD_START_APP)]"

definition sendSetFlashAddress :: "flash_app \<Rightarrow> nat \<Rightarrow> event list" where
  "sendSetFlashAddress a addr =
     (if verbose (args a) then [Log (SettingAddressVerbose addr)] else [])
     @ [Send (addrFrame a CMD_FLASH_SET_ADDRESS addr)]"

definition progressStart :: "flash_app \<Rightarrow> int \<Rightarrow> event list" where
  "progressStart a totalValue = (if doProgress a then [ProgressStart totalValue] else [])"

definition progressIncrement :: "flash_app \<Rightarrow> nat \<Rightarrow> event list" where
  "progressIncrement a incr = (if doProgress a then [ProgressIncrement incr] else [])"

definition progressStop :: "flash_app \<Rightarrow> event list" where
  "progressStop a = (if doProgress a then [ProgressStop] else [])"

text \<open>
  \<^verbatim>\<open>exit\<close> clears the ping timer, stops the channel and ends the process.
\<close>

definition exit :: "flash_app \<Rightarrow> int \<Rightarrow> flash_app" where
  "exit a code = a\<lparr>pingInterval := False, proc := Exited code\<rparr>"

subsection \<open>The memory map\<close>

text \<open>\<^verbatim>\<open>this.memMap.get(this.memMapCurrentKey)\<close>: the block, or \<open>None\<close> for \<^verbatim>\<open>undefined\<close>.\<close>

definition currentBlock :: "flash_app \<Rightarrow> byte list option" where
  "currentBlock a =
     (case memMapCurrentKey a of None \<Rightarrow> None | Some k \<Rightarrow> map_of (memMap a) k)"

text \<open>
  The test that opens \<^verbatim>\<open>onFlashReady\<close> and \<^verbatim>\<open>readForVerify\<close>: there is no current
  block, or the current index is past its end.
\<close>

definition noMoreData :: "flash_app \<Rightarrow> bool" where
  "noMoreData a =
     (case currentBlock a of
        None \<Rightarrow> True
      | Some blk \<Rightarrow> at blk (memMapCurrentDataIdx a) = None)"

text \<open>
  The case \<^verbatim>\<open>key.done\<close> of \<^verbatim>\<open>onFlashReady\<close> and \<^verbatim>\<open>readForVerify\<close>: no more data in
  the current block and no key left in the iterator.
\<close>

definition allKeysDone :: "flash_app \<Rightarrow> bool" where
  "allKeysDone a \<longleftrightarrow> noMoreData a \<and> memMapKeys a = []"

definition nextKey :: "flash_app \<Rightarrow> nat \<Rightarrow> nat list \<Rightarrow> flash_app" where
  "nextKey a k ks =
     a\<lparr>memMapKeys := ks, memMapCurrentKey := Some k, memMapCurrentDataIdx := 0,
       curAddr := k\<rparr>"

subsection \<open>readForVerify, readDone\<close>

definition readForVerify :: "flash_app \<Rightarrow> flash_app \<times> event list" where
  "readForVerify a =
     (if noMoreData a then
        (case memMapKeys a of
           [] \<Rightarrow> (a, progressStop a @ [Log VerifyDone] @ sendStartApp a)
         | k # ks \<Rightarrow>
             (let a' = nextKey a k ks
              in (a', [Send (addrFrame a' CMD_FLASH_READ (curAddr a'))])))
      else (a, [Send (addrFrame a CMD_FLASH_READ (curAddr a))]))"

text \<open>\<^verbatim>\<open>Uint8Array.from\<close> turns \<^verbatim>\<open>undefined\<close> into 0.\<close>

definition toUint8 :: "byte option \<Rightarrow> byte" where
  "toUint8 v = (case v of None \<Rightarrow> 0 | Some b \<Rightarrow> b)"

definition readDone :: "flash_app \<Rightarrow> event list" where
  "readDone a =
     progressStop a @ [WriteHex (map toUint8 (readDataArr a)), Log ReadingDone]
     @ sendStartApp a"

subsection \<open>onFlashReady\<close>

text \<open>
  \<^verbatim>\<open>msgData[7] + (msgData[6] << 8) + (msgData[5] << 16) + (msgData[4] << 24)\<close>:
  each shift is a signed 32-bit integer, the sum is a sum of numbers.
\<close>

definition curAddrRemote :: "byte list \<Rightarrow> int" where
  "curAddrRemote msgData =
     uint (msgData ! 7) + shl (msgData ! 6) 8 + shl (msgData ! 5) 16 + shl (msgData ! 4) 24"

text \<open>
  The loop that adds up to four data bytes: \<open>n\<close> iterations are left, \<open>i\<close> is the loop
  variable, the pair is the buffer and \<^verbatim>\<open>dataBytes\<close>.
\<close>

fun addDataBytes :: "byte list \<Rightarrow> nat \<Rightarrow> nat \<Rightarrow> nat \<Rightarrow> byte list \<times> nat \<Rightarrow> byte list \<times> nat" where
  "addDataBytes blk idx 0 i (data, dataBytes) = (data, dataBytes)"
| "addDataBytes blk idx (Suc n) i (data, dataBytes) =
     (case at blk (idx + i) of
        None \<Rightarrow> (data, dataBytes)
      | Some byte \<Rightarrow> addDataBytes blk idx n (Suc i) (data[4 + i := byte], Suc dataBytes))"

text \<open>
  \<^verbatim>\<open>data[3] = (dataBytes << 5) | (this.curAddr & 0b00011111)\<close>, computed on 32 bits and
  cut to a byte by the \<^verbatim>\<open>Buffer\<close>.
\<close>

definition lenAndAddr :: "nat \<Rightarrow> nat \<Rightarrow> byte" where
  "lenAndAddr dataBytes addr =
     ucast (push_bit 5 (word_of_nat dataBytes :: 32 word) OR (word_of_nat addr AND 0b00011111))"

text \<open>The part of \<^verbatim>\<open>onFlashReady\<close> after the current block is settled.\<close>

definition sendFlashData :: "flash_app \<Rightarrow> int \<Rightarrow> flash_app \<times> event list" where
  "sendFlashData a remote =
     (if int (curAddr a) \<noteq> remote then
        (a, [Log (SettingFlashAddress (curAddr a))] @ sendSetFlashAddress a (curAddr a))
      else
        (case currentBlock a of
           None \<Rightarrow> (a\<lparr>proc := TypeError\<rparr>, [])
         | Some blk \<Rightarrow>
             (let data0 = frame_data (cmdFrame a CMD_FLASH_DATA);
                  (data1, dataBytes) =
                     addDataBytes blk (memMapCurrentDataIdx a) 4 0 (data0, 0);
                  data = data1[CAN_DATA_BYTE_LEN_AND_ADDR := lenAndAddr dataBytes (curAddr a)]
              in (a, (if verbose (args a) then [Log (SendingFlashData (curAddr a))] else [])
                     @ [Send (mkFrame a data)]))))"

definition onFlashReady :: "flash_app \<Rightarrow> byte list \<Rightarrow> flash_app \<times> event list" where
  "onFlashReady a msgData =
     (let remote = curAddrRemote msgData in
      if noMoreData a then
        (case memMapKeys a of
           [] \<Rightarrow>
             (if doVerify a then
                (a\<lparr>state := STATE_READING\<rparr>,
                 progressStop a @ [Log AllDataTransmitted,
                   Send (cmdFrame a CMD_FLASH_DONE_VERIFY)])
              else
                (a, progressStop a @ [Log AllDataTransmitted,
                   Send (cmdFrame a CMD_FLASH_DONE)]))
         | k # ks \<Rightarrow>
             (let (a', out) = sendFlashData (nextKey a k ks) remote
              in (a', (if memMapCurrentKey a = None
                       then progressStart a (int (memMapTotalBytes a)) else []) @ out)))
      else sendFlashData a remote)"

subsection \<open>handleCanMsg\<close>

text \<open>
  The verify loop of the \<^verbatim>\<open>CMD_FLASH_READ_DATA\<close> case: \<open>n\<close> iterations are left and
  \<open>i\<close> is the loop variable. It ends normally, at the first byte that differs, or with a
  \<^verbatim>\<open>TypeError\<close> when there is no current block to index.
\<close>

datatype verify_result = VerifyOk | VerifyMismatch | VerifyTypeError

fun verifyLoop :: "flash_app \<Rightarrow> byte list \<Rightarrow> nat \<Rightarrow> nat \<Rightarrow> flash_app \<times> verify_result" where
  "verifyLoop a d 0 i = (a, VerifyOk)"
| "verifyLoop a d (Suc n) i =
     (case currentBlock a of
        None \<Rightarrow> (a, VerifyTypeError)
      | Some blk \<Rightarrow>
          (let v = at blk (memMapCurrentDataIdx a) in
           if v \<noteq> None \<and> v \<noteq> at d (4 + i) then (a, VerifyMismatch)
           else verifyLoop
                  (a\<lparr>curAddr := curAddr a + 1,
                     memMapCurrentDataIdx := memMapCurrentDataIdx a + 1\<rparr>) d n (Suc i)))"

text \<open>The loop that caches the data when the whole flash is read.\<close>

fun readLoop :: "flash_app \<Rightarrow> byte list \<Rightarrow> nat \<Rightarrow> nat \<Rightarrow> flash_app" where
  "readLoop a d 0 i = a"
| "readLoop a d (Suc n) i =
     readLoop (a\<lparr>readDataArr := readDataArr a @ [at d (4 + i)], curAddr := curAddr a + 1\<rparr>)
       d n (Suc i)"

text \<open>
  The test \<^verbatim>\<open>this.curAddr & 0b00011111 !== addrPart\<close>. In JavaScript \<^verbatim>\<open>!==\<close> binds
  tighter than \<^verbatim>\<open>&\<close>, so this is \<^verbatim>\<open>this.curAddr & (0b00011111 !== addrPart)\<close>: the
  comparison gives a boolean, \<^verbatim>\<open>&\<close> reads it as 1 or 0, and the \<^verbatim>\<open>if\<close> takes any
  result other than 0 as true.
\<close>

definition unexpectedReadAddress :: "nat \<Rightarrow> byte \<Rightarrow> bool" where
  "unexpectedReadAddress addr addrPart =
     ((word_of_nat addr :: 32 word) AND (if 0b00011111 \<noteq> addrPart then 1 else 0) \<noteq> 0)"

text \<open>\<^verbatim>\<open>this.args.r > 0 && this.curAddr > this.args.r\<close>; a comparison with \<^verbatim>\<open>NaN\<close> or \<^verbatim>\<open>undefined\<close> is false.\<close>

definition reachedMaxReadAddress :: "flash_app \<Rightarrow> bool" where
  "reachedMaxReadAddress a =
     (case arg_r (args a) of
        Some (Num n) \<Rightarrow> n > 0 \<and> int (curAddr a) > n
      | _ \<Rightarrow> False)"

text \<open>
  \<^verbatim>\<open>(msg.data[4] << 24) | (msg.data[5] << 16) | (msg.data[6] << 8) | msg.data[7]\<close>, a signed
  32-bit integer, and the sizes computed from it.
\<close>

definition flashendBL :: "byte list \<Rightarrow> int" where
  "flashendBL d =
     sint (push_bit 24 (ucast (d ! 4) :: 32 word) OR push_bit 16 (ucast (d ! 5))
           OR push_bit 8 (ucast (d ! 6)) OR ucast (d ! 7))"

definition progSize :: "byte list \<Rightarrow> int" where
  "progSize d = flashendBL d + 1"

definition blSize :: "flash_app \<Rightarrow> byte list \<Rightarrow> int" where
  "blSize a d = deviceFlashSize a - progSize d"

text \<open>The read size shown by the progress bar, with the warning when \<^verbatim>\<open>-r\<close> is too large.\<close>

definition readSize :: "flash_app \<Rightarrow> byte list \<Rightarrow> int \<times> event list" where
  "readSize a d =
     (case arg_r (args a) of
        Some (Num n) \<Rightarrow>
          (if n = 0 then (progSize d, [])
           else if n \<ge> progSize d then (progSize d, [Log (ReadSizeWarning n (progSize d))])
           else (n, []))
      | _ \<Rightarrow> (progSize d, []))"

definition handleInit :: "flash_app \<Rightarrow> byte list \<Rightarrow> flash_app \<times> event list" where
  "handleInit a d =
     (let cmd = d ! CAN_DATA_BYTE_CMD in
      if cmd = CMD_BOOTLOADER_START then
        (if d ! 4 \<noteq> fst (deviceSignature a) \<or> d ! 5 \<noteq> fst (snd (deviceSignature a))
            \<or> d ! 6 \<noteq> snd (snd (deviceSignature a)) then
           (a, [Log SignatureMismatch, Log SignatureExpected])
         else if d ! 7 \<noteq> BOOTLOADER_CMD_VERSION \<and> \<not> arg_F (args a) then
           (a, [Log VersionError])
         else
           (a\<lparr>pingInterval := False\<rparr>,
            (if d ! 7 \<noteq> BOOTLOADER_CMD_VERSION then [Log VersionForcedWarning] else [])
            @ [Log EnteringFlashMode]
            @ (if pingInterval a then [Log StoppedPing] else [])
            @ [Send (mkFrame a [fst (mcuId a), snd (mcuId a), CMD_FLASH_INIT, 0x00,
                 fst (deviceSignature a), fst (snd (deviceSignature a)),
                 snd (snd (deviceSignature a)), 0x00])]))
      else if cmd = CMD_FLASH_READY then
        (if doRead a then
           (a, [Log QueryingBootloaderSize] @ sendSetFlashAddress a 0xFFFFFFFF)
         else if doErase a then
           (a\<lparr>doErase := False\<rparr>, [Log ErasingFlash, Send (cmdFrame a CMD_FLASH_ERASE)])
         else
           (let (a', out) = onFlashReady (a\<lparr>state := STATE_FLASHING\<rparr>) d
            in (a', [Log BeginFlashing] @ out)))
      else if cmd = CMD_FLASH_ADDRESS_ERROR then
        (if doRead a then
           (let (readSizeBytes, warning) = readSize a d
            in (a\<lparr>state := STATE_READING\<rparr>,
                [Log (BootloaderSize (blSize a d))] @ warning @ progressStart a readSizeBytes
                @ [Send (cmdFrame a CMD_FLASH_READ)]))
         else (a, [Log UnexpectedAddressErrorInInit]))
      else (a, [Log (UnexpectedMessage cmd)]))"

definition handleFlashing :: "flash_app \<Rightarrow> byte list \<Rightarrow> flash_app \<times> event list" where
  "handleFlashing a d =
     (let cmd = d ! CAN_DATA_BYTE_CMD in
      if cmd = CMD_FLASH_DATA_ERROR then (a, [Log FlashDataError, Log CanBusIssuesHint])
      else if cmd = CMD_FLASH_ADDRESS_ERROR then (a, [Log FlashAddressError, Log HexFileHint])
      else if cmd = CMD_FLASH_READY then
        (let byteCount = unat (drop_bit 5 (d ! CAN_DATA_BYTE_LEN_AND_ADDR));
             (a', out) = onFlashReady
                (a\<lparr>curAddr := curAddr a + byteCount,
                   memMapCurrentDataIdx := memMapCurrentDataIdx a + byteCount\<rparr>) d
         in (a', progressIncrement a byteCount @ out))
      else if cmd = CMD_START_APP then (exit a 0, [Log FlashDone, Log McuStartingApp])
      else (a, [Log (UnexpectedMessage cmd)]))"

definition handleReadData :: "flash_app \<Rightarrow> byte list \<Rightarrow> flash_app \<times> event list" where
  "handleReadData a d =
     (let byteCount = unat (drop_bit 5 (d ! CAN_DATA_BYTE_LEN_AND_ADDR));
          addrPart = d ! CAN_DATA_BYTE_LEN_AND_ADDR AND 0b00011111
      in
      if unexpectedReadAddress (curAddr a) addrPart then
        (a, [Log UnexpectedReadAddress, Log WillAbort] @ sendStartApp a)
      else
        (let pre = (if verbose (args a) then [Log (GotFlashData (curAddr a))] else [])
                   @ progressIncrement a byteCount
         in
         if doVerify a then
           (case verifyLoop a d byteCount 0 of
              (a', VerifyTypeError) \<Rightarrow> (a'\<lparr>proc := TypeError\<rparr>, pre)
            | (a', VerifyMismatch) \<Rightarrow>
                (a', pre @ [Log (VerifyFailed (curAddr a')), Log TryingToStartApp]
                     @ sendStartApp a')
            | (a', VerifyOk) \<Rightarrow>
                (let (a'', out) = readForVerify a' in (a'', pre @ out)))
         else
           (let a' = readLoop a d byteCount 0 in
            if reachedMaxReadAddress a' then (a', pre @ readDone a')
            else (a', pre @ [Send (addrFrame a' CMD_FLASH_READ (curAddr a'))]))))"

definition handleReading :: "flash_app \<Rightarrow> byte list \<Rightarrow> flash_app \<times> event list" where
  "handleReading a d =
     (let cmd = d ! CAN_DATA_BYTE_CMD in
      if cmd = CMD_FLASH_DONE_VERIFY then
        (let (a', out) = readForVerify
               (a\<lparr>memMapKeys := map fst (memMap a), memMapCurrentKey := None,
                  memMapCurrentDataIdx := 0\<rparr>)
         in (a', [Log StartReadingToVerify] @ progressStart a (int (memMapTotalBytes a)) @ out))
      else if cmd = CMD_FLASH_READ_DATA then handleReadData a d
      else if cmd = CMD_FLASH_READ_ADDRESS_ERROR then
        (if doVerify a then (a, [Log ReadFailedDuringVerify] @ sendStartApp a)
         else (a, readDone a))
      else if cmd = CMD_START_APP then (exit a 0, [Log McuStartingApp])
      else (a, [Log (UnexpectedMessage cmd)]))"

text \<open>
  The handler of every received message. The three tests at its head drop a message that
  is not for this session; \<open>d ! i\<close> is read only after the length is known to be 8.
\<close>

definition handleCanMsg :: "flash_app \<Rightarrow> can_msg \<Rightarrow> flash_app \<times> event list" where
  "handleCanMsg a msg =
     (if length (msg_data msg) \<noteq> 8 then (a, [])
      else if Num (msg_id msg) \<noteq> canIdMcu (args a) then (a, [])
      else
        (let d = msg_data msg;
             mcuid' = uint (d ! CAN_DATA_BYTE_MCU_ID_LSB) + shl (d ! CAN_DATA_BYTE_MCU_ID_MSB) 8
         in
         if Num mcuid' \<noteq> mcuid (args a) then (a, [])
         else
           (case state a of
              STATE_INIT \<Rightarrow> handleInit a d
            | STATE_FLASHING \<Rightarrow> handleFlashing a d
            | STATE_READING \<Rightarrow> handleReading a d)))"

subsection \<open>The ping timer and the construction of the application\<close>

text \<open>
  The callback of \<^verbatim>\<open>setInterval\<close>. A timer that was cleared does not fire, so a tick
  without an installed timer does nothing.
\<close>

definition pingTick :: "flash_app \<Rightarrow> event list" where
  "pingTick a = (if pingInterval a then [Send (cmdFrame a CMD_PING)] else [])"

text \<open>
  The fields the constructor sets, from the options, the device (signature and flash size,
  as \<^verbatim>\<open>loadDeviceInfo\<close> gives them) and the memory map. \<open>V\<close> is the option
  \<^verbatim>\<open>-V\<close>, \<open>e\<close> the option \<^verbatim>\<open>-e\<close>.
\<close>

definition newFlashApp ::
  "args \<Rightarrow> bool \<Rightarrow> bool \<Rightarrow> byte \<times> byte \<times> byte \<Rightarrow> int \<Rightarrow> (nat \<times> byte list) list \<Rightarrow> flash_app" where
  "newFlashApp ar e V signature flashSize mm =
     \<lparr>args = ar,
      doProgress = (\<not> verbose ar),
      mcuId = (ucast (signed_drop_bit 8 (toInt32 (mcuid ar)) AND 0xFF),
               ucast (toInt32 (mcuid ar) AND 0xFF)),
      doErase = e,
      doRead = (arg_r ar \<noteq> None),
      doVerify = (if arg_r ar \<noteq> None then False else \<not> V),
      state = STATE_INIT,
      deviceSignature = signature,
      deviceFlashSize = flashSize,
      memMap = (if arg_r ar \<noteq> None then [] else mm),
      memMapKeys = (if arg_r ar \<noteq> None then [] else map fst mm),
      memMapCurrentKey = None,
      memMapCurrentDataIdx = 0,
      memMapTotalBytes = (if arg_r ar \<noteq> None then 0 else sum_list (map (\<lambda>b. length (snd b)) mm)),
      curAddr = 0,
      readDataArr = [],
      pingInterval = (case ping ar of None \<Rightarrow> False | Some ms \<Rightarrow> ms \<noteq> 0),
      proc = Running\<rparr>"

subsection \<open>Sessions\<close>

text \<open>
  What the event loop delivers: a received message or a tick of the ping timer. A session
  handles the inputs in order, one to completion before the next, until the process ends.
\<close>

datatype input = CanMsg can_msg | PingTimer

fun step :: "flash_app \<Rightarrow> input \<Rightarrow> flash_app \<times> event list" where
  "step a (CanMsg msg) = handleCanMsg a msg"
| "step a PingTimer = (a, pingTick a)"

fun run :: "flash_app \<Rightarrow> input list \<Rightarrow> flash_app \<times> event list" where
  "run a [] = (a, [])"
| "run a (x # xs) =
     (if proc a \<noteq> Running then (a, [])
      else (let (a', out) = step a x; (a'', out') = run a' xs in (a'', out @ out')))"

text \<open>The frames among the events, and the hex outputs among them.\<close>

fun sent :: "event list \<Rightarrow> frame list" where
  "sent [] = []"
| "sent (Send f # es) = f # sent es"
| "sent (_ # es) = sent es"

fun written :: "event list \<Rightarrow> byte list list" where
  "written [] = []"
| "written (WriteHex bs # es) = bs # written es"
| "written (_ # es) = written es"

subsection \<open>Messages for this session\<close>

text \<open>
  The messages that pass the three tests at the head of \<^verbatim>\<open>handleCanMsg\<close>: 8 data
  bytes, the CAN ID of the MCU, and the MCU ID of the session in bytes 0 and 1.
\<close>

definition forSession :: "flash_app \<Rightarrow> can_msg \<Rightarrow> bool" where
  "forSession a msg \<longleftrightarrow>
     length (msg_data msg) = 8 \<and> Num (msg_id msg) = canIdMcu (args a)
     \<and> Num (uint (msg_data msg ! 1) + 256 * uint (msg_data msg ! 0)) = mcuid (args a)"

subsection \<open>The data frame of the write step\<close>

text \<open>
  What the claims about \<^verbatim>\<open>FLASH_DATA\<close> compare the frames with: the 8 data bytes that
  carry, for the current block and index of \<open>a\<close>, the next image bytes (4 at most), the
  length-and-address byte for that count and the current address, and zeros after them.
\<close>

abbreviation (input) flashDataAt :: "flash_app \<Rightarrow> frame \<Rightarrow> bool" where
  "flashDataAt a f \<equiv>
     (\<exists>blk. currentBlock a = Some blk
        \<and> frame_data f =
            [fst (mcuId a), snd (mcuId a), CMD_FLASH_DATA,
             lenAndAddr (min 4 (length (drop (memMapCurrentDataIdx a) blk))) (curAddr a)]
            @ take 4 (drop (memMapCurrentDataIdx a) blk)
            @ replicate (4 - length (drop (memMapCurrentDataIdx a) blk)) 0)"

subsection \<open>What a handler leaves alone\<close>

text \<open>
  For the proofs about whole sessions: \<open>a'\<close> has the options, the identity, the mode and
  the memory map of \<open>a\<close>, the ping timer is not installed in \<open>a'\<close> unless it is in
  \<open>a\<close>, and the process is as it was or has ended with a \<^verbatim>\<open>TypeError\<close>. The second
  relation also allows that it has ended with exit code 0.
\<close>

definition sameSession :: "flash_app \<Rightarrow> flash_app \<Rightarrow> bool" where
  "sameSession a a' \<longleftrightarrow>
     args a' = args a \<and> mcuId a' = mcuId a \<and> doRead a' = doRead a
     \<and> doVerify a' = doVerify a \<and> memMap a' = memMap a \<and> doProgress a' = doProgress a
     \<and> (pingInterval a' \<longrightarrow> pingInterval a)
     \<and> (proc a' = proc a \<or> proc a' = TypeError)"

definition sameOrExited :: "flash_app \<Rightarrow> flash_app \<Rightarrow> bool" where
  "sameOrExited a a' \<longleftrightarrow>
     args a' = args a \<and> mcuId a' = mcuId a \<and> doRead a' = doRead a
     \<and> doVerify a' = doVerify a \<and> memMap a' = memMap a \<and> doProgress a' = doProgress a
     \<and> (pingInterval a' \<longrightarrow> pingInterval a)
     \<and> (proc a' = proc a \<or> proc a' = TypeError \<or> proc a' = Exited 0)"

subsection \<open>Reading the whole flash\<close>



subsection \<open>An example session\<close>

text \<open>
  An ATmega328P with MCU ID \<open>0x0042\<close> on the default CAN IDs, and a message from the
  MCU to this session with the given data bytes.
\<close>

definition exampleArgs :: args where
  "exampleArgs =
     \<lparr>mcuid = Num 0x0042, arg_r = None, arg_F = False, canIdMcu = Num 0x1FFFFF01,
      canIdRemote = Num 0x1FFFFF02, sff = False, ping = Some 75, verbose = False\<rparr>"

definition exampleApp :: "(nat \<times> byte list) list \<Rightarrow> flash_app" where
  "exampleApp mm = newFlashApp exampleArgs False False (0x1E, 0x95, 0x0F) (32 * 1024) mm"

text \<open>The same device read with \<^verbatim>\<open>-r\<close>.\<close>

definition exampleReadApp :: "jsnum \<Rightarrow> flash_app" where
  "exampleReadApp n =
     newFlashApp (exampleArgs\<lparr>arg_r := Some n\<rparr>) False False (0x1E, 0x95, 0x0F) (32 * 1024) []"

definition fromMcu :: "byte list \<Rightarrow> can_msg" where
  "fromMcu d = \<lparr>msg_id = 0x1FFFFF01, msg_data = d\<rparr>"

lemmas cmd_defs =
  CMD_PING_def CMD_BOOTLOADER_START_def CMD_FLASH_INIT_def CMD_FLASH_READY_def
  CMD_FLASH_SET_ADDRESS_def CMD_FLASH_ADDRESS_ERROR_def CMD_FLASH_DATA_def
  CMD_FLASH_DATA_ERROR_def CMD_FLASH_DONE_def CMD_FLASH_DONE_VERIFY_def CMD_FLASH_ERASE_def
  CMD_FLASH_READ_def CMD_FLASH_READ_DATA_def CMD_FLASH_READ_ADDRESS_ERROR_def CMD_START_APP_def
  BOOTLOADER_CMD_VERSION_def

lemmas byte_defs =
  CAN_DATA_BYTE_MCU_ID_MSB_def CAN_DATA_BYTE_MCU_ID_LSB_def CAN_DATA_BYTE_CMD_def
  CAN_DATA_BYTE_LEN_AND_ADDR_def

lemmas example_defs =
  exampleArgs_def exampleApp_def exampleReadApp_def fromMcu_def newFlashApp_def toInt32_def

section \<open>Bytes and 32-bit arithmetic\<close>

lemma uint_byte_less: "uint (b::byte) < 256"
  using uint_bounded[of b] by simp

lemma sint32_of_int:
  "- (2 ^ 31) \<le> k \<Longrightarrow> k < 2 ^ 31 \<Longrightarrow> sint (word_of_int k :: 32 word) = k"
  by (subst sint_sbintrunc') (simp add: signed_take_bit_int_eq_self)

lemma sint32_small: "0 \<le> k \<Longrightarrow> k < 2 ^ 31 \<Longrightarrow> sint (word_of_int k :: 32 word) = k"
  by (rule sint32_of_int) simp_all

lemma shl_8: "shl b 8 = 256 * uint b"
proof -
  have b: "uint b < 256" by (rule uint_byte_less)
  have "push_bit 8 (ucast b :: 32 word) = word_of_int (256 * uint b)"
    by (simp add: push_bit_eq_mult)
  then have "shl b 8 = sint (word_of_int (256 * uint b) :: 32 word)"
    by (simp only: shl_def)
  also have "\<dots> = 256 * uint b"
    using b by (intro sint32_small) simp_all
  finally show ?thesis .
qed

lemma shl_word_of_int: "shl b n = sint (word_of_int (2 ^ n * uint b) :: 32 word)"
proof -
  have "push_bit n (ucast b :: 32 word) = word_of_int (2 ^ n * uint b)"
    by (simp add: push_bit_eq_mult)
  then show ?thesis by (simp only: shl_def)
qed

lemma shl_16: "shl b 16 = 65536 * uint b"
proof -
  have b: "uint b < 256" by (rule uint_byte_less)
  have "sint (word_of_int (65536 * uint b) :: 32 word) = 65536 * uint b"
    using b by (intro sint32_small) simp_all
  then show ?thesis by (simp add: shl_word_of_int)
qed

lemma shl_24_small:
  assumes "uint b < 128"
  shows "shl b 24 = 16777216 * uint b"
proof -
  have "sint (word_of_int (16777216 * uint b) :: 32 word) = 16777216 * uint b"
    using assms by (intro sint32_small) simp_all
  then show ?thesis by (simp add: shl_word_of_int)
qed

lemma shl_24_big:
  assumes "128 \<le> uint (b :: byte)"
  shows "shl b 24 \<le> - 16777216"
proof -
  have b: "uint b < 256" by (rule uint_byte_less)
  let ?k = "16777216 * uint b"
  have "signed_take_bit 31 ?k \<le> ?k - 2 ^ Suc 31"
    using assms by (intro signed_take_bit_int_less_eq) simp
  moreover have "shl b 24 = signed_take_bit 31 ?k"
    by (simp only: shl_word_of_int sint_sbintrunc') simp
  ultimately show ?thesis using b by simp
qed

lemma curAddrRemote_unsigned:
  assumes "int c = curAddrRemote d"
  shows "int c = 16777216 * uint (d ! 4) + 65536 * uint (d ! 5) + 256 * uint (d ! 6)
                 + uint (d ! 7)"
proof (cases "uint (d ! 4) < 128")
  case True
  with assms show ?thesis
    by (simp add: curAddrRemote_def shl_8 shl_16 shl_24_small)
next
  case False
  then have "shl (d ! 4) 24 \<le> - 16777216" by (intro shl_24_big) simp
  moreover have "uint (d ! 5) < 256" "uint (d ! 6) < 256" "uint (d ! 7) < 256"
    by (rule uint_byte_less)+
  ultimately have "curAddrRemote d < 0"
    by (simp add: curAddrRemote_def shl_8 shl_16)
  with assms show ?thesis by simp
qed

lemma byteCount_less_8: "unat (drop_bit 5 (b::byte)) < 8"
proof -
  have "unat b < 256" using unsigned_less[of b, where 'a=nat] by simp
  moreover have "unat (drop_bit 5 b) = unat b div 32"
    by (simp add: drop_bit_eq_div unat_div)
  ultimately show ?thesis by simp
qed

lemma unexpectedReadAddress_iff: "unexpectedReadAddress addr p \<longleftrightarrow> odd addr \<and> p \<noteq> 31"
proof -
  have "(word_of_nat addr :: 32 word) AND 1 \<noteq> 0 \<longleftrightarrow> odd addr"
    by (meson even_of_nat even_word_def even_word_iff)
  then show ?thesis
    unfolding unexpectedReadAddress_def by simp
qed

text \<open>The four shifted bytes have no bit in common, so their disjunction is their sum.\<close>

lemma or_bytes_eq_add:
  fixes a b c d :: byte
  shows "push_bit 24 (ucast a :: 32 word) OR push_bit 16 (ucast b) OR push_bit 8 (ucast c) OR ucast d
         = push_bit 24 (ucast a) + push_bit 16 (ucast b) + push_bit 8 (ucast c) + ucast d"
proof -
  let ?A = "push_bit 24 (ucast a :: 32 word)"
  let ?B = "push_bit 16 (ucast b :: 32 word)"
  let ?C = "push_bit 8 (ucast c :: 32 word)"
  let ?D = "ucast d :: 32 word"
  have 1: "?A + ?B = ?A OR ?B"
    by (rule disjunctive_add_eq_or, rule bit_word_eqI)
      (auto simp: bit_simps dest: bit_imp_le_length)
  have 2: "(?A OR ?B) + ?C = (?A OR ?B) OR ?C"
    by (rule disjunctive_add_eq_or, rule bit_word_eqI)
      (auto simp: bit_simps dest: bit_imp_le_length)
  have 3: "((?A OR ?B) OR ?C) + ?D = ((?A OR ?B) OR ?C) OR ?D"
    by (rule disjunctive_add_eq_or, rule bit_word_eqI)
      (auto simp: bit_simps dest: bit_imp_le_length)
  have "?A OR ?B OR ?C OR ?D = ((?A OR ?B) OR ?C) OR ?D"
    by (simp only: or.assoc)
  also have "\<dots> = ((?A OR ?B) OR ?C) + ?D"
    by (rule 3 [symmetric])
  also have "\<dots> = (?A OR ?B) + ?C + ?D"
    by (simp only: 2 [symmetric])
  also have "\<dots> = ?A + ?B + ?C + ?D"
    by (simp only: 1 [symmetric])
  finally show ?thesis .
qed

lemma bytes_word_of_int:
  fixes a b c d :: byte
  shows "push_bit 24 (ucast a :: 32 word) + push_bit 16 (ucast b) + push_bit 8 (ucast c) + ucast d
         = word_of_int (16777216 * uint a + 65536 * uint b + 256 * uint c + uint d)"
  by (simp add: push_bit_eq_mult)

lemma flashendBL_big_endian:
  "flashendBL d =
     sint (word_of_int (16777216 * uint (d ! 4) + 65536 * uint (d ! 5) + 256 * uint (d ! 6)
                        + uint (d ! 7)) :: 32 word)"
  unfolding flashendBL_def by (simp only: or_bytes_eq_add bytes_word_of_int)

lemma flashendBL_unsigned:
  assumes "uint (d ! 4) < 128"
  shows "flashendBL d =
           16777216 * uint (d ! 4) + 65536 * uint (d ! 5) + 256 * uint (d ! 6) + uint (d ! 7)"
proof -
  have "uint (d ! 5) < 256" "uint (d ! 6) < 256" "uint (d ! 7) < 256"
    by (rule uint_byte_less)+
  with assms show ?thesis
    unfolding flashendBL_big_endian by (intro sint32_small) simp_all
qed

lemma and_0x1F_take_bit: "(w :: byte) AND 0x1F = take_bit 5 w"
proof -
  have "(0x1F :: byte) = mask 5" by (simp add: mask_eq_exp_minus_1)
  then show ?thesis by (simp add: take_bit_eq_mask)
qed

lemma unat_and_0x1F: "unat ((word_of_nat addr :: byte) AND 0x1F) = addr mod 32"
  apply (simp only: and_0x1F_take_bit)
  apply (simp add: unsigned_take_bit_eq take_bit_eq_mod unat_of_nat unat_mod mod_mod_cancel)
  done

lemma unat_push_bit_5: "n < 8 \<Longrightarrow> unat (push_bit 5 (word_of_nat n :: byte)) = 32 * n"
  apply (simp add: push_bit_eq_mult unat_word_ariths unat_of_nat)
  done


lemma lenAndAddr_byte:
  "lenAndAddr n addr = push_bit 5 (word_of_nat n) OR (word_of_nat addr AND 0x1F)"
  unfolding lenAndAddr_def
  by (rule bit_word_eqI) (auto simp: bit_simps)

lemma lenAndAddr_unat:
  assumes "n < 8"
  shows "unat (lenAndAddr n addr) = 32 * n + addr mod 32"
proof -
  let ?H = "push_bit 5 (word_of_nat n :: byte)"
  let ?L = "(word_of_nat addr :: byte) AND 0x1F"
  have "?H AND ?L = 0"
    by (rule bit_word_eqI) (auto simp: bit_simps and_0x1F_take_bit)
  then have "?H + ?L = ?H OR ?L"
    by (rule disjunctive_add_eq_or)
  then have "unat (lenAndAddr n addr) = unat (?H + ?L)"
    by (simp only: lenAndAddr_byte)
  also have "\<dots> = (unat ?H + unat ?L) mod 256"
    by (simp add: unat_word_ariths)
  also have "\<dots> = (32 * n + addr mod 32) mod 256"
    using assms by (simp only: unat_push_bit_5 unat_and_0x1F)
  also have "\<dots> = 32 * n + addr mod 32"
    using assms by simp
  finally show ?thesis .
qed

lemma lenAndAddr_fields:
  assumes "n < 8"
  shows "unat (drop_bit 5 (lenAndAddr n addr)) = n"
    and "unat (lenAndAddr n addr AND 0x1F) = addr mod 32"
proof -
  have "unat (drop_bit 5 (lenAndAddr n addr)) = unat (lenAndAddr n addr) div 32"
    by (simp add: drop_bit_eq_div unat_div)
  then show "unat (drop_bit 5 (lenAndAddr n addr)) = n"
    using assms by (simp add: lenAndAddr_unat)
  have "unat (lenAndAddr n addr AND 0x1F) = unat (lenAndAddr n addr) mod 32"
    by (simp only: and_0x1F_take_bit) (simp add: unsigned_take_bit_eq take_bit_eq_mod unat_mod)
  then show "unat (lenAndAddr n addr AND 0x1F) = addr mod 32"
    using assms by (simp add: lenAndAddr_unat)
qed


lemma at_simps [simp]:
  "at [] i = None" "at (x # xs) 0 = Some x" "at (x # xs) (Suc i) = at xs i"
  by (simp_all add: at_def)

lemma at_Cons_numeral [simp]: "at (x # xs) (numeral k) = at xs (pred_numeral k)"
  by (simp add: at_def numeral_eq_Suc)

lemma at_drop: "at blk (idx + i) = at (drop idx blk) i"
  by (auto simp: at_def)

lemma addDataBytes_drop:
  "addDataBytes blk idx n i acc = addDataBytes (drop idx blk) 0 n i acc"
  by (induction blk idx n i acc rule: addDataBytes.induct) (simp_all add: at_drop split: option.splits)

lemma addDataBytes_numeral:
  "addDataBytes blk idx (numeral k) i (data, n) =
     (case at blk (idx + i) of
        None \<Rightarrow> (data, n)
      | Some byte \<Rightarrow> addDataBytes blk idx (pred_numeral k) (Suc i) (data[4 + i := byte], Suc n))"
  by (simp add: numeral_eq_Suc)

lemma replicate_num: "replicate (numeral k) x = x # replicate (pred_numeral k) x"
  by (simp add: numeral_eq_Suc)

lemma addDataBytes_4:
  "addDataBytes blk idx 4 0 ([m0, m1, c, z, 0, 0, 0, 0], 0)
     = ([m0, m1, c, z] @ take 4 (drop idx blk) @ replicate (4 - length (drop idx blk)) 0,
        min 4 (length (drop idx blk)))"
proof -
  define xs where "xs = drop idx blk"
  have "addDataBytes xs 0 4 0 ([m0, m1, c, z, 0, 0, 0, 0], 0)
     = ([m0, m1, c, z] @ take 4 xs @ replicate (4 - length xs) 0, min 4 (length xs))"
  proof (cases xs)
    case Nil
    then show ?thesis by (simp add: addDataBytes_numeral replicate_num)
  next
    case (Cons b0 r0)
    note c0 = Cons
    show ?thesis
    proof (cases r0)
      case Nil
      with c0 show ?thesis by (simp add: addDataBytes_numeral replicate_num)
    next
      case (Cons b1 r1)
      note c1 = Cons
      show ?thesis
      proof (cases r1)
        case Nil
        with c0 c1 show ?thesis by (simp add: addDataBytes_numeral replicate_num)
      next
        case (Cons b2 r2)
        note c2 = Cons
        show ?thesis
        proof (cases r2)
          case Nil
          with c0 c1 c2 show ?thesis by (simp add: addDataBytes_numeral replicate_num)
        next
          case (Cons b3 r3)
          with c0 c1 c2 show ?thesis by (simp add: addDataBytes_numeral replicate_num)
        qed
      qed
    qed
  qed
  then show ?thesis
    unfolding xs_def by (simp only: addDataBytes_drop [of blk idx])
qed



lemma bit_addrByte:
  assumes "k0 + 8 \<le> 32"
  shows "bit (addrByte addr k0) k \<longleftrightarrow> k < 8 \<and> bit addr (k0 + k)"
proof -
  have m: "(0xFF :: 32 word) = mask 8" by (simp add: mask_eq_exp_minus_1)
  show ?thesis
    using assms unfolding addrByte_def m by (auto simp: bit_simps)
qed

lemma word_of_addrBytes:
  "(word_of_nat addr :: 32 word) =
     push_bit 24 (ucast (addrByte addr 24)) OR push_bit 16 (ucast (addrByte addr 16))
     OR push_bit 8 (ucast (addrByte addr 8)) OR ucast (addrByte addr 0)"
proof (rule bit_word_eqI)
  fix n :: nat
  assume "n < LENGTH(32)"
  then have n: "n < 32" by simp
  consider "n < 8" | "8 \<le> n" "n < 16" | "16 \<le> n" "n < 24" | "24 \<le> n"
    by linarith
  then show "bit (word_of_nat addr :: 32 word) n \<longleftrightarrow>
     bit (push_bit 24 (ucast (addrByte addr 24)) OR push_bit 16 (ucast (addrByte addr 16))
     OR push_bit 8 (ucast (addrByte addr 8)) OR (ucast (addrByte addr 0) :: 32 word)) n"
  proof cases
    case 1
    with n show ?thesis by (auto simp: bit_simps bit_addrByte)
  next
    case 2
    with n show ?thesis by (auto simp: bit_simps bit_addrByte)
  next
    case 3
    with n show ?thesis by (auto simp: bit_simps bit_addrByte)
  next
    case 4
    with n show ?thesis by (auto simp: bit_simps bit_addrByte)
  qed
qed

lemma addrBytes_decode:
  assumes "addr < 2 ^ 32"
  shows "16777216 * uint (addrByte addr 24) + 65536 * uint (addrByte addr 16)
         + 256 * uint (addrByte addr 8) + uint (addrByte addr 0) = int addr"
proof -
  let ?s = "16777216 * uint (addrByte addr 24) + 65536 * uint (addrByte addr 16)
         + 256 * uint (addrByte addr 8) + uint (addrByte addr 0)"
  have b: "uint (addrByte addr 24) < 256" "uint (addrByte addr 16) < 256"
    "uint (addrByte addr 8) < 256" "uint (addrByte addr 0) < 256"
    by (rule uint_byte_less)+
  have "(word_of_nat addr :: 32 word) = word_of_int ?s"
    by (subst word_of_addrBytes) (simp only: or_bytes_eq_add bytes_word_of_int)
  then have "uint (word_of_nat addr :: 32 word) = uint (word_of_int ?s :: 32 word)"
    by (rule arg_cong)
  moreover have "uint (word_of_nat addr :: 32 word) = int addr"
    using assms by (simp add: uint_word_of_int take_bit_eq_mod unsigned_of_nat)
  moreover have "uint (word_of_int ?s :: 32 word) = ?s mod 2 ^ 32"
    by (simp only: uint_word_of_int) simp
  moreover have "?s mod 2 ^ 32 = ?s"
    using b by (intro mod_pos_pos_trivial) simp_all
  ultimately show ?thesis by simp
qed

section \<open>Events\<close>

lemma sent_append: "sent (xs @ ys) = sent xs @ sent ys"
  by (induction xs rule: sent.induct) simp_all

lemma written_append: "written (xs @ ys) = written xs @ written ys"
  by (induction xs rule: written.induct) simp_all

lemma sent_progress:
  "sent (progressStart a n) = []" "sent (progressIncrement a k) = []" "sent (progressStop a) = []"
  by (simp_all add: progressStart_def progressIncrement_def progressStop_def)

lemma sent_sendStartApp: "sent (sendStartApp a) = [cmdFrame a CMD_START_APP]"
  by (simp add: sendStartApp_def)

lemma sent_sendSetFlashAddress:
  "sent (sendSetFlashAddress a addr) = [addrFrame a CMD_FLASH_SET_ADDRESS addr]"
  by (simp add: sendSetFlashAddress_def)

lemma sent_readDone: "sent (readDone a) = [cmdFrame a CMD_START_APP]"
  by (simp add: readDone_def sent_append sent_progress sent_sendStartApp)

lemma sent_readSize: "readSize a d = (n, w) \<Longrightarrow> sent w = []"
  by (auto simp: readSize_def split: option.splits jsnum.splits if_splits)

lemma handleCanMsg_forSession:
  assumes "forSession a msg"
  shows "handleCanMsg a msg =
           (case state a of
              STATE_INIT \<Rightarrow> handleInit a (msg_data msg)
            | STATE_FLASHING \<Rightarrow> handleFlashing a (msg_data msg)
            | STATE_READING \<Rightarrow> handleReading a (msg_data msg))"
proof -
  have "shl (msg_data msg ! 0) 8 = 256 * uint (msg_data msg ! 0)"
    by (rule shl_8)
  with assms show ?thesis
    by (auto simp: handleCanMsg_def forSession_def Let_def byte_defs simp del: One_nat_def)
qed

lemma handleCanMsg_not_forSession:
  assumes "\<not> forSession a msg"
  shows "handleCanMsg a msg = (a, [])"
proof -
  have "shl (msg_data msg ! 0) 8 = 256 * uint (msg_data msg ! 0)"
    by (rule shl_8)
  with assms show ?thesis
    by (auto simp: handleCanMsg_def forSession_def Let_def byte_defs simp del: One_nat_def)
qed

section \<open>The filter at the head of the handler\<close>

text \<open>
  Claim C5. In every state, a received frame whose CAN ID is not the configured
  MCU-to-remote ID, or whose data is not exactly 8 bytes long, or whose bytes 0 and 1 are
  not the configured MCU ID (high byte first), is dropped: the handler returns the
  application object as it was, so the session state and every cursor are unchanged, and it
  produces no event at all, so no frame is sent.
\<close>

theorem handleCanMsg_drops_foreign:
  assumes "Num (msg_id msg) \<noteq> canIdMcu (args a)
           \<or> length (msg_data msg) \<noteq> 8
           \<or> mcuid (args a) \<noteq> Num (uint (msg_data msg ! 1) + 256 * uint (msg_data msg ! 0))"
  shows "handleCanMsg a msg = (a, [])"
proof -
  have "shl (msg_data msg ! 0) 8 = 256 * uint (msg_data msg ! 0)"
    by (rule shl_8)
  with assms show ?thesis
    by (auto simp: handleCanMsg_def Let_def byte_defs simp del: One_nat_def)
qed

theorem handleCanMsg_drops_foreign_witness:
  "handleCanMsg (exampleApp []) \<lparr>msg_id = 0x123, msg_data = [0x00, 0x42, 0x04, 0, 0, 0, 0, 0]\<rparr>
     = (exampleApp [], [])
   \<and> handleCanMsg (exampleApp []) (fromMcu [0x00, 0x42, 0x04, 0, 0, 0, 0]) = (exampleApp [], [])
   \<and> handleCanMsg (exampleApp []) (fromMcu [0x00, 0x43, 0x04, 0, 0, 0, 0, 0])
     = (exampleApp [], [])"
  using handleCanMsg_drops_foreign
      [of "\<lparr>msg_id = 0x123, msg_data = [0x00, 0x42, 0x04, 0, 0, 0, 0, 0]\<rparr>" "exampleApp []"]
    handleCanMsg_drops_foreign [of "fromMcu [0x00, 0x42, 0x04, 0, 0, 0, 0]" "exampleApp []"]
    handleCanMsg_drops_foreign [of "fromMcu [0x00, 0x43, 0x04, 0, 0, 0, 0, 0]" "exampleApp []"]
  by (simp add: example_defs)

section \<open>The Init state\<close>

text \<open>
  Claim C8. In the Init state, a \<^verbatim>\<open>BOOTLOADER_START\<close> frame for this session whose
  signature bytes 4 to 6 match the device and whose version byte 7 is not \<open>0x01\<close>:
  without the force option the host writes the version error, changes nothing (so it stays
  in Init) and sends no frame, in particular no \<^verbatim>\<open>FLASH_INIT\<close>; with the force option
  it writes the warning, stops the ping timer, stays in Init and sends \<^verbatim>\<open>FLASH_INIT\<close>
  with the signature in bytes 4 to 6.
\<close>

theorem bootloader_start_version_check:
  assumes "forSession a msg" and "state a = STATE_INIT"
    and "msg_data msg ! 2 = CMD_BOOTLOADER_START"
    and "(msg_data msg ! 4, msg_data msg ! 5, msg_data msg ! 6) = deviceSignature a"
    and "msg_data msg ! 7 \<noteq> 0x01"
  shows "handleCanMsg a msg =
           (if arg_F (args a) then
              (a\<lparr>pingInterval := False\<rparr>,
               [Log VersionForcedWarning, Log EnteringFlashMode]
               @ (if pingInterval a then [Log StoppedPing] else [])
               @ [Send (mkFrame a [fst (mcuId a), snd (mcuId a), CMD_FLASH_INIT, 0x00,
                    msg_data msg ! 4, msg_data msg ! 5, msg_data msg ! 6, 0x00])])
            else (a, [Log VersionError]))
         \<and> state (fst (handleCanMsg a msg)) = STATE_INIT
         \<and> (\<not> arg_F (args a) \<longrightarrow> sent (snd (handleCanMsg a msg)) = [])"
proof -
  obtain s0 s1 s2 where sig: "deviceSignature a = (s0, s1, s2)"
    by (cases "deviceSignature a") auto
  with assms(4) have d: "msg_data msg ! 4 = s0" "msg_data msg ! 5 = s1" "msg_data msg ! 6 = s2"
    by simp_all
  have "handleCanMsg a msg = handleInit a (msg_data msg)"
    using assms(1,2) by (simp add: handleCanMsg_forSession)
  then show ?thesis
    using assms(2,3,5) sig d
    by (simp add: handleInit_def Let_def byte_defs BOOTLOADER_CMD_VERSION_def)
qed

theorem bootloader_start_version_check_witness:
  "handleCanMsg (exampleApp []) (fromMcu [0x00, 0x42, 0x02, 0, 0x1E, 0x95, 0x0F, 0x02])
     = (exampleApp [], [Log VersionError])
   \<and> sent (snd (handleCanMsg (exampleApp [])
         (fromMcu [0x00, 0x42, 0x02, 0, 0x1E, 0x95, 0x0F, 0x02]))) = []
   \<and> sent (snd (handleCanMsg ((exampleApp [])\<lparr>args := exampleArgs\<lparr>arg_F := True\<rparr>\<rparr>)
         (fromMcu [0x00, 0x42, 0x02, 0, 0x1E, 0x95, 0x0F, 0x02])))
     = [\<lparr>frame_id = Num 0x1FFFFF02, ext = True, rtr = False,
         frame_data = [0x00, 0x42, 0x06, 0x00, 0x1E, 0x95, 0x0F, 0x00]\<rparr>]"
  using bootloader_start_version_check
     [of "exampleApp []" "fromMcu [0x00, 0x42, 0x02, 0, 0x1E, 0x95, 0x0F, 0x02]"]
    bootloader_start_version_check
     [of "(exampleApp [])\<lparr>args := exampleArgs\<lparr>arg_F := True\<rparr>\<rparr>"
         "fromMcu [0x00, 0x42, 0x02, 0, 0x1E, 0x95, 0x0F, 0x02]"]
  by (simp add: example_defs forSession_def cmd_defs mkFrame_def)

text \<open>
  Claim C7. In the Init state and in read mode, a \<^verbatim>\<open>FLASH_ADDRESS_ERROR\<close> frame for this
  session is decoded as follows: \<^verbatim>\<open>FLASHEND_BL\<close> is the 32-bit integer with bytes 4 to 7
  of the data, most significant byte first (read as a signed 32-bit integer, as the bitwise
  operators of JavaScript give it, which is the unsigned value when byte 4 is below
  \<open>0x80\<close>); the program size is \<^verbatim>\<open>FLASHEND_BL + 1\<close> and the
  bootloader size is the flash size minus the program size, which the host prints; the state
  becomes Reading and nothing else of the object changes; the one frame sent is
  \<^verbatim>\<open>FLASH_READ\<close> with the four address bytes zero.
\<close>

theorem flash_address_error_in_init:
  assumes "forSession a msg" and "state a = STATE_INIT" and "doRead a"
    and "msg_data msg ! 2 = CMD_FLASH_ADDRESS_ERROR"
  shows "flashendBL (msg_data msg) =
           sint (word_of_int (16777216 * uint (msg_data msg ! 4) + 65536 * uint (msg_data msg ! 5)
                   + 256 * uint (msg_data msg ! 6) + uint (msg_data msg ! 7)) :: 32 word)
         \<and> (uint (msg_data msg ! 4) < 128 \<longrightarrow>
              flashendBL (msg_data msg) =
                16777216 * uint (msg_data msg ! 4) + 65536 * uint (msg_data msg ! 5)
                + 256 * uint (msg_data msg ! 6) + uint (msg_data msg ! 7))
         \<and> progSize (msg_data msg) = flashendBL (msg_data msg) + 1
         \<and> blSize a (msg_data msg) = deviceFlashSize a - progSize (msg_data msg)
         \<and> handleCanMsg a msg =
             (a\<lparr>state := STATE_READING\<rparr>,
              [Log (BootloaderSize (blSize a (msg_data msg)))] @ snd (readSize a (msg_data msg))
              @ progressStart a (fst (readSize a (msg_data msg)))
              @ [Send (cmdFrame a CMD_FLASH_READ)])
         \<and> sent (snd (handleCanMsg a msg)) = [cmdFrame a CMD_FLASH_READ]
         \<and> frame_data (cmdFrame a CMD_FLASH_READ)
             = [fst (mcuId a), snd (mcuId a), 0x40, 0x00, 0x00, 0x00, 0x00, 0x00]"
proof -
  have h: "handleCanMsg a msg = handleInit a (msg_data msg)"
    using assms(1,2) by (simp add: handleCanMsg_forSession)
  have s: "sent (snd (readSize a (msg_data msg))) = []"
    by (simp add: readSize_def split: option.splits jsnum.splits)
  have eq: "handleInit a (msg_data msg) =
             (a\<lparr>state := STATE_READING\<rparr>,
              [Log (BootloaderSize (blSize a (msg_data msg)))] @ snd (readSize a (msg_data msg))
              @ progressStart a (fst (readSize a (msg_data msg)))
              @ [Send (cmdFrame a CMD_FLASH_READ)])"
    using assms(3,4)
    by (simp add: handleInit_def Let_def byte_defs cmd_defs split: prod.splits)
  have u: "uint (msg_data msg ! 4) < 128 \<longrightarrow>
              flashendBL (msg_data msg) =
                16777216 * uint (msg_data msg ! 4) + 65536 * uint (msg_data msg ! 5)
                + 256 * uint (msg_data msg ! 6) + uint (msg_data msg ! 7)"
    using flashendBL_unsigned [of "msg_data msg"] by blast
  have "flashendBL (msg_data msg) =
           sint (word_of_int (16777216 * uint (msg_data msg ! 4) + 65536 * uint (msg_data msg ! 5)
                   + 256 * uint (msg_data msg ! 6) + uint (msg_data msg ! 7)) :: 32 word)"
    by (rule flashendBL_big_endian)
  moreover have "sent (snd (handleCanMsg a msg)) = [cmdFrame a CMD_FLASH_READ]"
    by (simp add: h eq sent_append sent_progress s)
  moreover have "frame_data (cmdFrame a CMD_FLASH_READ)
             = [fst (mcuId a), snd (mcuId a), 0x40, 0x00, 0x00, 0x00, 0x00, 0x00]"
    by (simp add: cmdFrame_def mkFrame_def CMD_FLASH_READ_def)
  ultimately show ?thesis
    using u h eq by (simp only: progSize_def blSize_def)
qed

theorem flash_address_error_in_init_witness:
  "progSize [0x00, 0x42, 0x0B, 0, 0x00, 0x00, 0x77, 0xFF] = 0x7800
   \<and> blSize (exampleReadApp NaN) [0x00, 0x42, 0x0B, 0, 0x00, 0x00, 0x77, 0xFF] = 0x0800
   \<and> state (fst (handleCanMsg (exampleReadApp NaN)
         (fromMcu [0x00, 0x42, 0x0B, 0, 0x00, 0x00, 0x77, 0xFF]))) = STATE_READING
   \<and> sent (snd (handleCanMsg (exampleReadApp NaN)
         (fromMcu [0x00, 0x42, 0x0B, 0, 0x00, 0x00, 0x77, 0xFF])))
     = [\<lparr>frame_id = Num 0x1FFFFF02, ext = True, rtr = False,
         frame_data = [0x00, 0x42, 0x40, 0x00, 0x00, 0x00, 0x00, 0x00]\<rparr>]"
  using flash_address_error_in_init
     [of "exampleReadApp NaN" "fromMcu [0x00, 0x42, 0x0B, 0, 0x00, 0x00, 0x77, 0xFF]"]
  by (simp add: example_defs forSession_def cmd_defs mkFrame_def cmdFrame_def readSize_def
      sent_append sent_progress)

section \<open>The write step\<close>

lemma sendFlashData_differs:
  assumes "int (curAddr a) \<noteq> remote"
  shows "sendFlashData a remote =
           (a, [Log (SettingFlashAddress (curAddr a))] @ sendSetFlashAddress a (curAddr a))"
  using assms by (simp add: sendFlashData_def)

lemma sendFlashData_TypeError:
  assumes "int (curAddr a) = remote" and "currentBlock a = None"
  shows "sendFlashData a remote = (a\<lparr>proc := TypeError\<rparr>, [])"
  using assms by (simp add: sendFlashData_def)

lemma sendFlashData_equal:
  assumes "int (curAddr a) = remote" and "currentBlock a = Some blk"
  shows "sendFlashData a remote =
           (a, (if verbose (args a) then [Log (SendingFlashData (curAddr a))] else [])
               @ [Send (mkFrame a
                    ([fst (mcuId a), snd (mcuId a), CMD_FLASH_DATA,
                      lenAndAddr (min 4 (length (drop (memMapCurrentDataIdx a) blk))) (curAddr a)]
                     @ take 4 (drop (memMapCurrentDataIdx a) blk)
                     @ replicate (4 - length (drop (memMapCurrentDataIdx a) blk)) 0))])"
  using assms
  by (simp add: sendFlashData_def cmdFrame_def mkFrame_def addDataBytes_4 byte_defs)



lemma frame_cmd [simp]:
  "frame_data (cmdFrame a c) ! 2 = c" "frame_data (addrFrame a c addr) ! 2 = c"
  by (simp_all add: cmdFrame_def addrFrame_def mkFrame_def)

lemma sendFlashData_flash_data:
  assumes "sendFlashData a remote = (a', out)" and "f \<in> set (sent out)"
    and "frame_data f ! 2 = CMD_FLASH_DATA"
  shows "int (curAddr a') = remote \<and> flashDataAt a' f"
proof (cases "int (curAddr a) = remote")
  case False
  with assms show ?thesis
    by (auto simp: sendFlashData_differs sent_sendSetFlashAddress cmd_defs)
next
  case True
  show ?thesis
  proof (cases "currentBlock a")
    case None
    with True assms show ?thesis by (simp add: sendFlashData_TypeError)
  next
    case (Some blk)
    with True assms show ?thesis
      by (auto simp: sendFlashData_equal [OF True Some] sent_append mkFrame_def
          split: if_splits)
  qed
qed

lemma onFlashReady_flash_data:
  assumes "onFlashReady a d = (a', out)" and "f \<in> set (sent out)"
    and "frame_data f ! 2 = CMD_FLASH_DATA"
  shows "int (curAddr a') = curAddrRemote d \<and> flashDataAt a' f"
  using assms
  by (auto simp: onFlashReady_def Let_def sent_append sent_progress cmd_defs
      split: if_splits list.splits prod.splits dest: sendFlashData_flash_data)


lemma readForVerify_no_flash_data:
  assumes "readForVerify a = (a', out)" and "f \<in> set (sent out)"
  shows "frame_data f ! 2 \<noteq> CMD_FLASH_DATA"
  using assms
  by (auto simp: readForVerify_def Let_def sent_append sent_progress sent_sendStartApp cmd_defs
      split: if_splits list.splits)

lemma handleReadData_no_flash_data:
  assumes "f \<in> set (sent (snd (handleReadData a d)))"
  shows "frame_data f ! 2 \<noteq> CMD_FLASH_DATA"
  using assms
  by (auto simp: handleReadData_def Let_def sent_append sent_progress sent_sendStartApp
      sent_readDone cmd_defs
      split: if_splits prod.splits verify_result.splits
      dest: readForVerify_no_flash_data)


lemma handleReading_no_flash_data:
  assumes "f \<in> set (sent (snd (handleReading a d)))"
  shows "frame_data f ! 2 \<noteq> CMD_FLASH_DATA"
  using assms
  by (auto simp: handleReading_def Let_def sent_append sent_progress sent_sendStartApp
      sent_readDone cmd_defs
      split: if_splits prod.splits
      dest: readForVerify_no_flash_data handleReadData_no_flash_data)

lemma handleFlashing_flash_data:
  assumes "handleFlashing a d = (a', out)" and "f \<in> set (sent out)"
    and "frame_data f ! 2 = CMD_FLASH_DATA"
  shows "int (curAddr a') = curAddrRemote d \<and> flashDataAt a' f"
  using assms
  by (auto simp: handleFlashing_def Let_def sent_append sent_progress
      split: if_splits prod.splits dest: onFlashReady_flash_data)

lemma handleInit_flash_data:
  assumes "handleInit a d = (a', out)" and "f \<in> set (sent out)"
    and "frame_data f ! 2 = CMD_FLASH_DATA"
  shows "int (curAddr a') = curAddrRemote d \<and> flashDataAt a' f"
  using assms
  by (auto simp: handleInit_def Let_def sent_append sent_progress sent_sendSetFlashAddress
      mkFrame_def cmd_defs
      split: if_splits prod.splits dest: onFlashReady_flash_data sent_readSize)


lemma handleCanMsg_cases:
  "handleCanMsg a msg = (a, [])
   \<or> forSession a msg \<and> state a = STATE_INIT \<and> handleInit a (msg_data msg) = handleCanMsg a msg
   \<or> forSession a msg \<and> state a = STATE_FLASHING
       \<and> handleFlashing a (msg_data msg) = handleCanMsg a msg
   \<or> forSession a msg \<and> state a = STATE_READING
       \<and> handleReading a (msg_data msg) = handleCanMsg a msg"
proof (cases "forSession a msg")
  case True
  then show ?thesis
    by (cases "state a") (simp_all add: handleCanMsg_forSession)
next
  case False
  then have "handleCanMsg a msg = (a, [])"
    by (rule handleCanMsg_not_forSession)
  then show ?thesis by simp
qed

text \<open>
  Claim C4. Every \<^verbatim>\<open>FLASH_DATA\<close> frame the host sends, in any step of a session (a
  received message or a tick of the ping timer) and from any state of the object, has in
  byte 3 the value \<open>(n << 5) | (current_address & 0x1F)\<close>, where \<open>n\<close>, between 0 and 4, is
  the number of image bytes of the current block, from the current index on, that the frame
  carries in bytes 4 and following; the bytes after them are zero. So bits 7 to 5 of byte 3
  are \<open>n\<close> and bits 4 to 0 are the low 5 bits of the current address.
\<close>

theorem flash_data_fragment:
  assumes "step a x = (a', out)" and "f \<in> set (sent out)"
    and "frame_data f ! 2 = CMD_FLASH_DATA"
  shows "\<exists>blk n. currentBlock a' = Some blk
           \<and> n = min 4 (length (drop (memMapCurrentDataIdx a') blk))
           \<and> frame_data f =
               [fst (mcuId a'), snd (mcuId a'), CMD_FLASH_DATA,
                push_bit 5 (word_of_nat n) OR (word_of_nat (curAddr a') AND 0x1F)]
               @ take n (drop (memMapCurrentDataIdx a') blk) @ replicate (4 - n) 0
           \<and> unat (drop_bit 5 (frame_data f ! 3)) = n
           \<and> unat (frame_data f ! 3 AND 0x1F) = curAddr a' mod 32"
proof -
  have "flashDataAt a' f"
  proof (cases x)
    case PingTimer
    with assms show ?thesis
      by (auto simp: pingTick_def cmd_defs split: if_splits)
  next
    case (CanMsg msg)
    with assms(1) have e: "handleCanMsg a msg = (a', out)" by simp
    from handleCanMsg_cases [of a msg, unfolded e]
    consider "(a', out) = (a, [])"
      | "handleInit a (msg_data msg) = (a', out)"
      | "handleFlashing a (msg_data msg) = (a', out)"
      | "handleReading a (msg_data msg) = (a', out)"
      by blast
    then show ?thesis
    proof cases
      case 1
      with assms(2) show ?thesis by simp
    next
      case 2
      from handleInit_flash_data [OF this assms(2,3)] show ?thesis by simp
    next
      case 3
      from handleFlashing_flash_data [OF this assms(2,3)] show ?thesis by simp
    next
      case 4
      with assms(2,3) handleReading_no_flash_data [of f a "msg_data msg"]
      show ?thesis by simp
    qed
  qed
  then obtain blk where blk: "currentBlock a' = Some blk"
    and f: "frame_data f =
            [fst (mcuId a'), snd (mcuId a'), CMD_FLASH_DATA,
             lenAndAddr (min 4 (length (drop (memMapCurrentDataIdx a') blk))) (curAddr a')]
            @ take 4 (drop (memMapCurrentDataIdx a') blk)
            @ replicate (4 - length (drop (memMapCurrentDataIdx a') blk)) 0"
    by blast
  define n where "n = min 4 (length (drop (memMapCurrentDataIdx a') blk))"
  have n8: "n < 8" by (simp add: n_def)
  have t: "take 4 (drop (memMapCurrentDataIdx a') blk) = take n (drop (memMapCurrentDataIdx a') blk)"
    by (simp add: n_def min_def)
  have r: "4 - length (drop (memMapCurrentDataIdx a') blk) = 4 - n"
    by (simp add: n_def min_def)
  have c2: "frame_data f =
              [fst (mcuId a'), snd (mcuId a'), CMD_FLASH_DATA,
               push_bit 5 (word_of_nat n) OR (word_of_nat (curAddr a') AND 0x1F)]
              @ take n (drop (memMapCurrentDataIdx a') blk) @ replicate (4 - n) 0"
    unfolding f t r n_def [symmetric] lenAndAddr_byte ..
  have f3: "frame_data f ! 3 = lenAndAddr n (curAddr a')"
    by (simp add: f n_def)
  have c3: "unat (drop_bit 5 (frame_data f ! 3)) = n"
    unfolding f3 by (rule lenAndAddr_fields(1) [OF n8])
  have c4: "unat (frame_data f ! 3 AND 0x1F) = curAddr a' mod 32"
    unfolding f3 by (rule lenAndAddr_fields(2) [OF n8])
  from blk n_def c2 c3 c4 show ?thesis by blast
qed

theorem flash_data_fragment_witness:
  "frame_data \<lparr>frame_id = Num 0x1FFFFF02, ext = True, rtr = False,
      frame_data = [0x00, 0x42, 0x08, 0x80, 0xAA, 0xBB, 0xCC, 0xDD]\<rparr>
     = [0x00, 0x42, CMD_FLASH_DATA, push_bit 5 (word_of_nat 4) OR (word_of_nat 0 AND 0x1F)]
       @ take 4 [0xAA, 0xBB, 0xCC, 0xDD] @ replicate (4 - 4) 0
   \<and> sent (snd (step (exampleApp [(0x0000, [0xAA, 0xBB, 0xCC, 0xDD])])
                    (CanMsg (fromMcu [0x00, 0x42, 0x04, 0, 0, 0, 0, 0]))))
     = [\<lparr>frame_id = Num 0x1FFFFF02, ext = True, rtr = False,
         frame_data = [0x00, 0x42, 0x08, 0x80, 0xAA, 0xBB, 0xCC, 0xDD]\<rparr>]"
proof -
  let ?a = "exampleApp [(0x0000, [0xAA, 0xBB, 0xCC, 0xDD])]"
  let ?x = "CanMsg (fromMcu [0x00, 0x42, 0x04, 0, 0, 0, 0, 0])"
  let ?f = "\<lparr>frame_id = Num 0x1FFFFF02, ext = True, rtr = False,
             frame_data = [0x00, 0x42, 0x08, 0x80, 0xAA, 0xBB, 0xCC, 0xDD]\<rparr>"
  have s: "sent (snd (step ?a ?x)) = [?f]"
    by (simp add: example_defs handleCanMsg_def handleInit_def onFlashReady_def
        sendFlashData_def noMoreData_def currentBlock_def nextKey_def curAddrRemote_def
        shl_def cmdFrame_def mkFrame_def lenAndAddr_def progressStart_def
        addDataBytes_numeral Let_def cmd_defs byte_defs sent_append)
  have c: "currentBlock (fst (step ?a ?x)) = Some [0xAA, 0xBB, 0xCC, 0xDD]"
    "memMapCurrentDataIdx (fst (step ?a ?x)) = 0" "curAddr (fst (step ?a ?x)) = 0"
    "mcuId (fst (step ?a ?x)) = (0x00, 0x42)"
    by (simp_all add: example_defs handleCanMsg_def handleInit_def onFlashReady_def
        sendFlashData_def noMoreData_def currentBlock_def nextKey_def curAddrRemote_def
        shl_def cmdFrame_def mkFrame_def lenAndAddr_def progressStart_def
        addDataBytes_numeral Let_def cmd_defs byte_defs sent_append)
  have "step ?a ?x = (fst (step ?a ?x), snd (step ?a ?x))" by simp
  from flash_data_fragment [OF this, of ?f] s c show ?thesis
    by (simp add: cmd_defs)
qed

lemma sendFlashData_resync:
  assumes "sendFlashData a remote = (a', out)"
  shows "curAddr a' = curAddr a \<and> currentBlock a' = currentBlock a
         \<and> (int (curAddr a) \<noteq> remote \<longrightarrow>
               sent out = [addrFrame a CMD_FLASH_SET_ADDRESS (curAddr a)])
         \<and> (int (curAddr a) = remote \<and> currentBlock a \<noteq> None \<longrightarrow>
               (\<exists>f. sent out = [f] \<and> frame_data f ! 2 = CMD_FLASH_DATA))"
proof (cases "int (curAddr a) = remote")
  case False
  with assms show ?thesis
    by (auto simp: sendFlashData_differs sent_sendSetFlashAddress)
next
  case True
  show ?thesis
  proof (cases "currentBlock a")
    case None
    with True assms show ?thesis
      by (auto simp: sendFlashData_TypeError currentBlock_def split: option.splits)
  next
    case (Some blk)
    with True assms show ?thesis
      by (auto simp: sendFlashData_equal [OF True Some] sent_append mkFrame_def
          split: if_splits)
  qed
qed

lemma onFlashReady_resync:
  assumes "onFlashReady a d = (a', out)" and "\<not> allKeysDone a"
  shows "(int (curAddr a') \<noteq> curAddrRemote d \<longrightarrow>
               sent out = [addrFrame a CMD_FLASH_SET_ADDRESS (curAddr a')])
         \<and> (int (curAddr a') = curAddrRemote d \<and> currentBlock a' \<noteq> None \<longrightarrow>
               (\<exists>f. sent out = [f] \<and> frame_data f ! 2 = CMD_FLASH_DATA))"
proof (cases "noMoreData a")
  case False
  with assms(1) have "sendFlashData a (curAddrRemote d) = (a', out)"
    by (simp add: onFlashReady_def)
  from sendFlashData_resync [OF this] show ?thesis by simp
next
  case True
  with assms(2) obtain k ks where ks: "memMapKeys a = k # ks"
    by (cases "memMapKeys a") (auto simp: allKeysDone_def)
  obtain out' where s: "sendFlashData (nextKey a k ks) (curAddrRemote d) = (a', out')"
    and out: "out = (if memMapCurrentKey a = None
                       then progressStart a (int (memMapTotalBytes a)) else []) @ out'"
    using assms(1) True ks by (auto simp: onFlashReady_def split: prod.splits)
  have f: "addrFrame (nextKey a k ks) = addrFrame a"
    by (intro ext) (simp add: addrFrame_def mkFrame_def nextKey_def)
  from sendFlashData_resync [OF s] show ?thesis
    by (simp add: out sent_append sent_progress f)
qed


lemma allKeysDone_curAddr [simp]:
  "allKeysDone (a\<lparr>curAddr := c, memMapCurrentDataIdx := i\<rparr>)
     = allKeysDone (a\<lparr>memMapCurrentDataIdx := i\<rparr>)"
  by (simp add: allKeysDone_def noMoreData_def currentBlock_def split: option.splits)

text \<open>
  Claim C2. In the Flashing state a \<^verbatim>\<open>FLASH_READY\<close> frame for this session advances the
  cursors by its byte count and runs the write step. Whenever a next chunk exists (the
  current block has a byte at the new index, or the iterator has another key) and its
  starting address, the current address after the step, differs from the remote address in
  bytes 4 to 7 of the frame, the one frame sent is \<^verbatim>\<open>FLASH_SET_ADDRESS\<close> with the
  current address in bytes 4 to 7, most significant byte first, and so no
  \<^verbatim>\<open>FLASH_DATA\<close>. A \<^verbatim>\<open>FLASH_DATA\<close> frame is sent only when the two addresses are
  equal, and when they are equal (and the current key has a block) it is the one frame sent.
  The remote address is \<open>curAddrRemote\<close>, the number the source computes from bytes 4 to
  7; whenever it is equal to a current address it is also the unsigned big-endian value of
  the four bytes.
\<close>

theorem flash_ready_resync:
  assumes "forSession a msg" and "state a = STATE_FLASHING"
    and "msg_data msg ! 2 = CMD_FLASH_READY"
    and "handleCanMsg a msg = (a', out)"
  shows "(\<not> allKeysDone (a\<lparr>memMapCurrentDataIdx :=
                 memMapCurrentDataIdx a + unat (drop_bit 5 (msg_data msg ! 3))\<rparr>)
          \<and> int (curAddr a') \<noteq> curAddrRemote (msg_data msg) \<longrightarrow>
            sent out = [addrFrame a CMD_FLASH_SET_ADDRESS (curAddr a')]
            \<and> frame_data (addrFrame a CMD_FLASH_SET_ADDRESS (curAddr a'))
                = [fst (mcuId a), snd (mcuId a), CMD_FLASH_SET_ADDRESS, 0x00,
                   addrByte (curAddr a') 24, addrByte (curAddr a') 16,
                   addrByte (curAddr a') 8, addrByte (curAddr a') 0]
            \<and> (curAddr a' < 2 ^ 32 \<longrightarrow>
                 16777216 * uint (addrByte (curAddr a') 24) + 65536 * uint (addrByte (curAddr a') 16)
                 + 256 * uint (addrByte (curAddr a') 8) + uint (addrByte (curAddr a') 0)
                 = int (curAddr a')))
         \<and> (\<forall>f \<in> set (sent out). frame_data f ! 2 = CMD_FLASH_DATA \<longrightarrow>
               int (curAddr a') = curAddrRemote (msg_data msg)
               \<and> int (curAddr a')
                   = 16777216 * uint (msg_data msg ! 4) + 65536 * uint (msg_data msg ! 5)
                     + 256 * uint (msg_data msg ! 6) + uint (msg_data msg ! 7))
         \<and> (\<not> allKeysDone (a\<lparr>memMapCurrentDataIdx :=
                 memMapCurrentDataIdx a + unat (drop_bit 5 (msg_data msg ! 3))\<rparr>)
            \<and> int (curAddr a') = curAddrRemote (msg_data msg) \<and> currentBlock a' \<noteq> None \<longrightarrow>
               (\<exists>f. sent out = [f] \<and> frame_data f ! 2 = CMD_FLASH_DATA))"
proof -
  let ?d = "msg_data msg"
  let ?n = "unat (drop_bit 5 (?d ! 3))"
  let ?a1 = "a\<lparr>curAddr := curAddr a + ?n, memMapCurrentDataIdx := memMapCurrentDataIdx a + ?n\<rparr>"
  have h: "handleFlashing a ?d = (a', out)"
    using assms(1,2,4) by (simp add: handleCanMsg_forSession)
  obtain out' where o: "onFlashReady ?a1 ?d = (a', out')"
    and out: "out = progressIncrement a ?n @ out'"
    using h assms(3)
    by (auto simp: handleFlashing_def Let_def byte_defs cmd_defs split: prod.splits)
  have s: "sent out = sent out'"
    by (simp add: out sent_append sent_progress)
  have f: "addrFrame ?a1 = addrFrame a"
    by (intro ext) (simp add: addrFrame_def mkFrame_def)
  have 1: "\<forall>f \<in> set (sent out). frame_data f ! 2 = CMD_FLASH_DATA \<longrightarrow>
               int (curAddr a') = curAddrRemote ?d
               \<and> int (curAddr a')
                   = 16777216 * uint (?d ! 4) + 65536 * uint (?d ! 5)
                     + 256 * uint (?d ! 6) + uint (?d ! 7)"
    using handleFlashing_flash_data [OF h] curAddrRemote_unsigned [of "curAddr a'" ?d]
    by blast
  have 2: "frame_data (addrFrame a CMD_FLASH_SET_ADDRESS (curAddr a'))
                = [fst (mcuId a), snd (mcuId a), CMD_FLASH_SET_ADDRESS, 0x00,
                   addrByte (curAddr a') 24, addrByte (curAddr a') 16,
                   addrByte (curAddr a') 8, addrByte (curAddr a') 0]"
    by (simp add: addrFrame_def mkFrame_def)
  have 3: "sent out = [addrFrame a CMD_FLASH_SET_ADDRESS (curAddr a')]"
    if "\<not> allKeysDone (a\<lparr>memMapCurrentDataIdx := memMapCurrentDataIdx a + ?n\<rparr>)"
      "int (curAddr a') \<noteq> curAddrRemote ?d"
  proof -
    from that(1) have "\<not> allKeysDone ?a1" by simp
    from onFlashReady_resync [OF o this] that(2) show ?thesis
      by (simp add: s f)
  qed
  have 4: "\<exists>f. sent out = [f] \<and> frame_data f ! 2 = CMD_FLASH_DATA"
    if "\<not> allKeysDone (a\<lparr>memMapCurrentDataIdx := memMapCurrentDataIdx a + ?n\<rparr>)"
      "int (curAddr a') = curAddrRemote ?d" "currentBlock a' \<noteq> None"
  proof -
    from that(1) have "\<not> allKeysDone ?a1" by simp
    from onFlashReady_resync [OF o this] that(2,3) show ?thesis
      by (simp add: s)
  qed
  have 5: "curAddr a' < 2 ^ 32 \<longrightarrow>
             16777216 * uint (addrByte (curAddr a') 24) + 65536 * uint (addrByte (curAddr a') 16)
             + 256 * uint (addrByte (curAddr a') 8) + uint (addrByte (curAddr a') 0)
             = int (curAddr a')"
    using addrBytes_decode [of "curAddr a'"] by blast
  from 1 2 3 4 5 show ?thesis by blast
qed

theorem flash_ready_resync_witness:
  "sent (snd (handleCanMsg
      ((exampleApp [(0x0000, [0x01, 0x02, 0x03, 0x04]), (0x0100, [0x05])])
         \<lparr>state := STATE_FLASHING, memMapKeys := [0x0100], memMapCurrentKey := Some 0x0000\<rparr>)
      (fromMcu [0x00, 0x42, 0x04, 0x80, 0x00, 0x00, 0x00, 0x04])))
   = [\<lparr>frame_id = Num 0x1FFFFF02, ext = True, rtr = False,
       frame_data = [0x00, 0x42, 0x0A, 0x00, 0x00, 0x00, 0x01, 0x00]\<rparr>]"
proof -
  let ?a = "(exampleApp [(0x0000, [0x01, 0x02, 0x03, 0x04]), (0x0100, [0x05])])
         \<lparr>state := STATE_FLASHING, memMapKeys := [0x0100], memMapCurrentKey := Some 0x0000\<rparr>"
  let ?m = "fromMcu [0x00, 0x42, 0x04, 0x80, 0x00, 0x00, 0x00, 0x04]"
  have bc: "unat (drop_bit 5 (0x80 :: byte)) = 4"
    by (simp add: drop_bit_eq_div unat_div)
  have 1: "forSession ?a ?m" "state ?a = STATE_FLASHING" "msg_data ?m ! 2 = CMD_FLASH_READY"
    by (simp_all add: example_defs forSession_def cmd_defs)
  have 2: "handleCanMsg ?a ?m = (fst (handleCanMsg ?a ?m), snd (handleCanMsg ?a ?m))"
    by simp
  have c: "curAddr (fst (handleCanMsg ?a ?m)) = 0x0100"
    by (simp add: example_defs handleCanMsg_def handleFlashing_def onFlashReady_def
        sendFlashData_def noMoreData_def currentBlock_def nextKey_def curAddrRemote_def
        shl_def bc Let_def cmd_defs byte_defs split: prod.splits)
  have r: "curAddrRemote (msg_data ?m) = 4"
    by (simp add: fromMcu_def curAddrRemote_def shl_def)
  have k: "\<not> allKeysDone (?a\<lparr>memMapCurrentDataIdx :=
             memMapCurrentDataIdx ?a + unat (drop_bit 5 (msg_data ?m ! 3))\<rparr>)"
    by (simp add: example_defs allKeysDone_def)
  have b: "addrByte 0x0100 24 = 0" "addrByte 0x0100 16 = 0" "addrByte 0x0100 8 = 1"
    "addrByte 0x0100 0 = 0"
    by (simp_all add: addrByte_def)
  from flash_ready_resync [OF 1 2] k
  have "sent (snd (handleCanMsg ?a ?m)) = [addrFrame ?a CMD_FLASH_SET_ADDRESS 0x0100]"
    by (simp add: c r)
  then show ?thesis
    by (simp add: addrFrame_def mkFrame_def b example_defs cmd_defs)
qed

section \<open>The Reading state\<close>

lemma readLoop_eq:
  "readLoop a d n i =
     a\<lparr>readDataArr := readDataArr a @ map (\<lambda>j. at d (4 + j)) [i..<i + n],
       curAddr := curAddr a + n\<rparr>"
proof (induction n arbitrary: a i)
  case 0
  show ?case by simp
next
  case (Suc n)
  have "[i..<i + Suc n] = i # [Suc i..<Suc i + n]"
    by (simp add: upt_rec)
  then show ?case
    by (simp add: Suc.IH)
qed

text \<open>
  Claim C10. The byte count in bits 7 to 5 of byte 3 is used as it comes, without a test
  that it is at most 4. For a \<^verbatim>\<open>FLASH_READ_DATA\<close> frame in the Reading state, when the
  whole flash is read and the address test lets the frame pass, the loop appends
  \<^verbatim>\<open>msg.data[4+i]\<close> for every \<open>i\<close> below the byte count and adds the full byte count to
  the current address; with a byte count above 4 it reads index 8, past the 8 data bytes,
  and the value appended there is \<^verbatim>\<open>undefined\<close>. For a \<^verbatim>\<open>FLASH_READY\<close> frame in the
  Flashing state, the current address and the index are advanced by the full byte count
  before the write step runs.
\<close>

theorem byte_count_not_validated:
  assumes "forSession a msg"
  shows "(state a = STATE_READING \<and> msg_data msg ! 2 = CMD_FLASH_READ_DATA \<and> \<not> doVerify a
          \<and> \<not> unexpectedReadAddress (curAddr a) (msg_data msg ! 3 AND 0x1F) \<longrightarrow>
            curAddr (fst (handleCanMsg a msg))
              = curAddr a + unat (drop_bit 5 (msg_data msg ! 3))
            \<and> readDataArr (fst (handleCanMsg a msg))
              = readDataArr a
                @ map (\<lambda>i. at (msg_data msg) (4 + i)) [0..<unat (drop_bit 5 (msg_data msg ! 3))]
            \<and> (4 < unat (drop_bit 5 (msg_data msg ! 3)) \<longrightarrow>
                 at (msg_data msg) (4 + 4) = None
                 \<and> readDataArr (fst (handleCanMsg a msg)) ! (length (readDataArr a) + 4) = None))
       \<and> (state a = STATE_FLASHING \<and> msg_data msg ! 2 = CMD_FLASH_READY \<longrightarrow>
            handleCanMsg a msg =
              (let byteCount = unat (drop_bit 5 (msg_data msg ! 3));
                   (a', out) = onFlashReady
                     (a\<lparr>curAddr := curAddr a + byteCount,
                        memMapCurrentDataIdx := memMapCurrentDataIdx a + byteCount\<rparr>)
                     (msg_data msg)
               in (a', progressIncrement a byteCount @ out)))"
proof -
  let ?d = "msg_data msg"
  let ?n = "unat (drop_bit 5 (?d ! 3))"
  have len: "length ?d = 8" using assms by (simp add: forSession_def)
  have flashing: "handleCanMsg a msg =
              (let byteCount = ?n;
                   (a', out) = onFlashReady
                     (a\<lparr>curAddr := curAddr a + byteCount,
                        memMapCurrentDataIdx := memMapCurrentDataIdx a + byteCount\<rparr>) ?d
               in (a', progressIncrement a byteCount @ out))"
    if "state a = STATE_FLASHING" "?d ! 2 = CMD_FLASH_READY"
    using that assms
    by (simp add: handleCanMsg_forSession handleFlashing_def Let_def byte_defs cmd_defs)
  have reading: "curAddr (fst (handleCanMsg a msg)) = curAddr a + ?n
       \<and> readDataArr (fst (handleCanMsg a msg)) =
           readDataArr a @ map (\<lambda>i. at ?d (4 + i)) [0..<?n]
       \<and> (4 < ?n \<longrightarrow> at ?d (4 + 4) = None
             \<and> readDataArr (fst (handleCanMsg a msg)) ! (length (readDataArr a) + 4) = None)"
    if st: "state a = STATE_READING" "?d ! 2 = CMD_FLASH_READ_DATA"
      and rd: "\<not> doVerify a" "\<not> unexpectedReadAddress (curAddr a) (?d ! 3 AND 0x1F)"
  proof -
    have h: "handleCanMsg a msg = handleReadData a ?d"
      using assms st
      by (simp add: handleCanMsg_forSession handleReading_def Let_def byte_defs cmd_defs)
    have f: "fst (handleReadData a ?d) = readLoop a ?d ?n 0"
      using rd by (simp add: handleReadData_def Let_def byte_defs)
    have c: "curAddr (fst (handleCanMsg a msg)) = curAddr a + ?n"
      and r: "readDataArr (fst (handleCanMsg a msg))
              = readDataArr a @ map (\<lambda>i. at ?d (4 + i)) [0..<?n]"
      by (simp_all add: h f readLoop_eq)
    have "at ?d (4 + 4) = None" using len by (simp add: at_def)
    moreover have "4 < ?n \<Longrightarrow>
        readDataArr (fst (handleCanMsg a msg)) ! (length (readDataArr a) + 4) = at ?d (4 + 4)"
      by (simp add: r nth_append)
    ultimately show ?thesis using c r by simp
  qed
  from flashing reading show ?thesis by blast
qed

theorem byte_count_not_validated_witness:
  "unat (drop_bit 5 (0xE0 :: byte)) = 7
   \<and> curAddr (fst (handleCanMsg ((exampleReadApp NaN)\<lparr>state := STATE_READING\<rparr>)
        (fromMcu [0x00, 0x42, 0x48, 0xE0, 0x11, 0x22, 0x33, 0x44]))) = 7
   \<and> readDataArr (fst (handleCanMsg ((exampleReadApp NaN)\<lparr>state := STATE_READING\<rparr>)
        (fromMcu [0x00, 0x42, 0x48, 0xE0, 0x11, 0x22, 0x33, 0x44])))
     = [Some 0x11, Some 0x22, Some 0x33, Some 0x44, None, None, None]"
proof -
  let ?a = "(exampleReadApp NaN)\<lparr>state := STATE_READING\<rparr>"
  let ?m = "fromMcu [0x00, 0x42, 0x48, 0xE0, 0x11, 0x22, 0x33, 0x44]"
  have bc: "unat (drop_bit 5 (0xE0 :: byte)) = 7"
    by (simp add: drop_bit_eq_div unat_div)
  have u: "[0..<7] = [0, 1, 2, 3, 4, 5, 6]"
    by (simp add: upt_rec)
  have 1: "forSession ?a ?m"
    by (simp add: example_defs forSession_def)
  have 2: "state ?a = STATE_READING \<and> msg_data ?m ! 2 = CMD_FLASH_READ_DATA \<and> \<not> doVerify ?a
           \<and> \<not> unexpectedReadAddress (curAddr ?a) (msg_data ?m ! 3 AND 0x1F)"
    by (simp add: example_defs cmd_defs unexpectedReadAddress_iff)
  have 3: "msg_data ?m = [0x00, 0x42, 0x48, 0xE0, 0x11, 0x22, 0x33, 0x44]"
    "curAddr ?a = 0" "readDataArr ?a = []"
    by (simp_all add: example_defs)
  note t = byte_count_not_validated [OF 1, THEN conjunct1, THEN mp, OF 2]
  from t show ?thesis
    by (simp add: 3 bc u)
qed

text \<open>
  Claim C1. In the Reading state a \<^verbatim>\<open>FLASH_READ_DATA\<close> frame whose address part (bits 4
  to 0 of byte 3) differs from the low 5 bits of the current address has to abort the
  session. The source tests \<^verbatim>\<open>this.curAddr & 0b00011111 !== addrPart\<close>, which JavaScript
  reads as \<^verbatim>\<open>this.curAddr & (0b00011111 !== addrPart)\<close>: the frame is refused exactly when
  the current address is odd and the address part is not 31. Here the current address is 0
  and the address part is 1: the frame is not refused, its four bytes are cached, the
  current address becomes 4 and the next \<^verbatim>\<open>FLASH_READ\<close> is sent, with no
  \<^verbatim>\<open>START_APP\<close>. And with current address 1 a frame with the right address part 1 is
  refused.
\<close>

theorem read_data_address_check_failing_input:
  "(0x81 :: byte) AND 0x1F \<noteq> word_of_nat (0 mod 32)
   \<and> handleCanMsg ((exampleReadApp NaN)\<lparr>state := STATE_READING\<rparr>)
        (fromMcu [0x00, 0x42, 0x48, 0x81, 0x11, 0x22, 0x33, 0x44])
     = ((exampleReadApp NaN)
          \<lparr>state := STATE_READING,
            readDataArr := [Some 0x11, Some 0x22, Some 0x33, Some 0x44], curAddr := 4\<rparr>,
        [ProgressIncrement 4,
         Send \<lparr>frame_id = Num 0x1FFFFF02, ext = True, rtr = False,
                frame_data = [0x00, 0x42, 0x40, 0x00, 0x00, 0x00, 0x00, 0x04]\<rparr>])
   \<and> (0x81 :: byte) AND 0x1F = word_of_nat (1 mod 32)
   \<and> handleCanMsg ((exampleReadApp NaN)\<lparr>state := STATE_READING, curAddr := 1\<rparr>)
        (fromMcu [0x00, 0x42, 0x48, 0x81, 0x11, 0x22, 0x33, 0x44])
     = ((exampleReadApp NaN)\<lparr>state := STATE_READING, curAddr := 1\<rparr>,
        [Log UnexpectedReadAddress, Log WillAbort, Log StartingApp,
         Send \<lparr>frame_id = Num 0x1FFFFF02, ext = True, rtr = False,
                frame_data = [0x00, 0x42, 0x80, 0x00, 0x00, 0x00, 0x00, 0x00]\<rparr>])"
proof -
  have bc: "unat (drop_bit 5 (0x81 :: byte)) = 4"
    by (simp add: drop_bit_eq_div unat_div)
  have u: "[0..<4] = [0, 1, 2, 3]"
    by (simp add: upt_rec)
  have b: "addrByte 4 24 = 0" "addrByte 4 16 = 0" "addrByte 4 8 = 0" "addrByte 4 0 = 4"
    by (simp_all add: addrByte_def)
  show ?thesis
    by (simp add: example_defs handleCanMsg_def handleReading_def handleReadData_def
        unexpectedReadAddress_iff readLoop_eq reachedMaxReadAddress_def progressIncrement_def
        sendStartApp_def addrFrame_def cmdFrame_def mkFrame_def shl_def bc u b
        Let_def cmd_defs byte_defs)
qed

section \<open>Sessions\<close>

lemma sameSession_refl [simp]: "sameSession a a"
  by (simp add: sameSession_def)

lemma sameSession_trans: "sameSession a b \<Longrightarrow> sameSession b c \<Longrightarrow> sameSession a c"
  unfolding sameSession_def by metis

lemma sameSession_updates [simp]:
  "sameSession a (b\<lparr>curAddr := c\<rparr>) = sameSession a b"
  "sameSession a (b\<lparr>memMapCurrentDataIdx := i\<rparr>) = sameSession a b"
  "sameSession a (b\<lparr>memMapCurrentKey := k\<rparr>) = sameSession a b"
  "sameSession a (b\<lparr>memMapKeys := ks\<rparr>) = sameSession a b"
  "sameSession a (b\<lparr>readDataArr := rs\<rparr>) = sameSession a b"
  "sameSession a (b\<lparr>state := s\<rparr>) = sameSession a b"
  "sameSession a (b\<lparr>doErase := e\<rparr>) = sameSession a b"
  "sameSession (b\<lparr>curAddr := c\<rparr>) a = sameSession b a"
  "sameSession (b\<lparr>memMapCurrentDataIdx := i\<rparr>) a = sameSession b a"
  "sameSession (b\<lparr>memMapCurrentKey := k\<rparr>) a = sameSession b a"
  "sameSession (b\<lparr>memMapKeys := ks\<rparr>) a = sameSession b a"
  "sameSession (b\<lparr>state := s\<rparr>) a = sameSession b a"
  by (simp_all add: sameSession_def)

lemma sameSession_end [simp]:
  "sameSession a (a\<lparr>pingInterval := False\<rparr>)"
  "sameSession a (a\<lparr>proc := TypeError\<rparr>)"
  "sameSession a b \<Longrightarrow> sameSession a (b\<lparr>proc := TypeError\<rparr>)"
  by (simp_all add: sameSession_def)

lemma sameOrExited_refl [simp]: "sameOrExited a a"
  by (simp add: sameOrExited_def)

lemma sameOrExited_trans: "sameOrExited a b \<Longrightarrow> sameOrExited b c \<Longrightarrow> sameOrExited a c"
  unfolding sameOrExited_def by metis

lemma sameSession_sameOrExited: "sameSession a b \<Longrightarrow> sameOrExited a b"
  by (auto simp: sameSession_def sameOrExited_def)

lemma sameOrExited_exit [simp]: "sameOrExited a (exit a 0)"
  by (simp add: sameOrExited_def exit_def)

lemma verifyLoop_same: "sameSession a (fst (verifyLoop a d n i))"
proof (induction a d n i rule: verifyLoop.induct)
  case (1 a d i)
  show ?case by simp
next
  case (2 a d n i)
  show ?case
  proof (cases "currentBlock a")
    case None
    then show ?thesis by simp
  next
    case (Some blk)
    show ?thesis
    proof (cases "at blk (memMapCurrentDataIdx a) \<noteq> None
                  \<and> at blk (memMapCurrentDataIdx a) \<noteq> at d (4 + i)")
      case True
      with Some show ?thesis by (simp add: Let_def)
    next
      case False
      from "2.IH" [OF Some refl False] Some False show ?thesis by (simp add: Let_def)
    qed
  qed
qed

lemma sendFlashData_same: "sameSession a (fst (sendFlashData a remote))"
  by (simp add: sendFlashData_def Let_def case_prod_beta split: option.splits)

lemma onFlashReady_same: "sameSession a (fst (onFlashReady a d))"
proof -
  have "sameSession a (fst (sendFlashData (nextKey a k ks) r))" for k ks r
    using sendFlashData_same [of "nextKey a k ks" r] by (simp add: nextKey_def)
  then show ?thesis
    by (simp add: onFlashReady_def Let_def sendFlashData_same case_prod_beta
        split: list.splits)
qed

lemma readForVerify_same: "sameSession a (fst (readForVerify a))"
  by (simp add: readForVerify_def Let_def nextKey_def split: list.splits)

lemma handleReadData_same: "sameSession a (fst (handleReadData a d))"
proof -
  have v: "sameSession a (fst (verifyLoop a d n 0))" for n
    by (rule verifyLoop_same)
  have "sameSession a (fst (readForVerify (fst (verifyLoop a d n 0))))" for n
    by (rule sameSession_trans [OF v readForVerify_same])
  with v show ?thesis
    by (simp add: handleReadData_def Let_def readLoop_eq case_prod_beta
        split: verify_result.splits)
qed

lemma handleReading_same:
  "if d ! 2 = CMD_START_APP then fst (handleReading a d) = exit a 0
   else sameSession a (fst (handleReading a d))"
proof -
  have "sameSession a (fst (readForVerify (a\<lparr>memMapKeys := ks, memMapCurrentKey := None,
                  memMapCurrentDataIdx := 0\<rparr>)))" for ks
    using readForVerify_same [of "a\<lparr>memMapKeys := ks, memMapCurrentKey := None,
                  memMapCurrentDataIdx := 0\<rparr>"] by simp
  then show ?thesis
    by (simp add: handleReading_def Let_def handleReadData_same case_prod_beta byte_defs
        cmd_defs)
qed

lemma handleFlashing_same:
  "if d ! 2 = CMD_START_APP then fst (handleFlashing a d) = exit a 0
   else sameSession a (fst (handleFlashing a d))"
proof -
  have "sameSession a (fst (onFlashReady (a\<lparr>curAddr := c, memMapCurrentDataIdx := i\<rparr>) d))"
    for c i
    using onFlashReady_same [of "a\<lparr>curAddr := c, memMapCurrentDataIdx := i\<rparr>" d] by simp
  then show ?thesis
    by (simp add: handleFlashing_def Let_def case_prod_beta byte_defs cmd_defs)
qed

lemma handleInit_same: "sameSession a (fst (handleInit a d))"
proof -
  have "sameSession a (fst (onFlashReady (a\<lparr>state := STATE_FLASHING\<rparr>) d))"
    using onFlashReady_same [of "a\<lparr>state := STATE_FLASHING\<rparr>" d] by simp
  then show ?thesis
    by (simp add: handleInit_def Let_def case_prod_beta)
qed

lemma handleCanMsg_same:
  "if forSession a msg \<and> state a \<noteq> STATE_INIT \<and> msg_data msg ! 2 = CMD_START_APP
   then fst (handleCanMsg a msg) = exit a 0
   else sameSession a (fst (handleCanMsg a msg))"
proof (cases "forSession a msg")
  case False
  then show ?thesis by (simp add: handleCanMsg_not_forSession)
next
  case True
  with handleInit_same [of a "msg_data msg"]
    handleFlashing_same [where a = a and d = "msg_data msg"]
    handleReading_same [where a = a and d = "msg_data msg"]
  show ?thesis
    by (cases "state a") (simp_all add: handleCanMsg_forSession)
qed

lemma step_same_or_exit:
  "if (\<exists>msg. x = CanMsg msg \<and> forSession a msg \<and> state a \<noteq> STATE_INIT
             \<and> msg_data msg ! 2 = CMD_START_APP)
   then fst (step a x) = exit a 0
   else sameSession a (fst (step a x))"
  using handleCanMsg_same by (cases x) auto


lemma run_not_Running: "proc a \<noteq> Running \<Longrightarrow> run a xs = (a, [])"
  by (cases xs) simp_all


lemma run_Cons:
  "proc a = Running \<Longrightarrow>
     run a (x # xs) = (fst (run (fst (step a x)) xs), snd (step a x) @ snd (run (fst (step a x)) xs))"
  by (simp add: case_prod_beta)

lemma run_Cons_not_Running: "proc a \<noteq> Running \<Longrightarrow> run a (x # xs) = (a, [])"
  by simp

declare run.simps(2) [simp del]

lemma sent_snd_readSize: "sent (snd (readSize a d)) = []"
  by (cases "readSize a d") (simp add: sent_readSize)

lemma step_same: "sameOrExited a (fst (step a x))"
  using step_same_or_exit [of x a] sameOrExited_exit [of a]
  by (auto intro: sameSession_sameOrExited split: if_splits)

lemma run_same: "sameOrExited a (fst (run a xs))"
proof (induction xs arbitrary: a)
  case Nil
  show ?case by simp
next
  case (Cons x xs)
  show ?case
  proof (cases "proc a = Running")
    case True
    from sameOrExited_trans [OF step_same Cons.IH] show ?thesis
      by (simp add: run_Cons [OF True])
  next
    case False
    then show ?thesis by (simp add: run_not_Running)
  qed
qed

lemma sendFlashData_no_ping:
  assumes "f \<in> set (sent (snd (sendFlashData a remote)))"
  shows "frame_data f ! 2 \<noteq> CMD_PING"
proof (cases "int (curAddr a) = remote")
  case False
  with assms show ?thesis
    by (auto simp: sendFlashData_differs sent_sendSetFlashAddress cmd_defs)
next
  case True
  show ?thesis
  proof (cases "currentBlock a")
    case None
    with True assms show ?thesis by (simp add: sendFlashData_TypeError)
  next
    case (Some blk)
    with True assms show ?thesis
      by (auto simp: sendFlashData_equal [OF True Some] sent_append mkFrame_def cmd_defs
          split: if_splits)
  qed
qed

lemma onFlashReady_no_ping:
  assumes "f \<in> set (sent (snd (onFlashReady a d)))"
  shows "frame_data f ! 2 \<noteq> CMD_PING"
  using assms
  by (auto simp: onFlashReady_def Let_def sent_append sent_progress cmd_defs case_prod_beta
      split: if_splits list.splits dest: sendFlashData_no_ping)

lemma readForVerify_no_ping:
  assumes "f \<in> set (sent (snd (readForVerify a)))"
  shows "frame_data f ! 2 \<noteq> CMD_PING"
  using assms
  by (auto simp: readForVerify_def Let_def sent_append sent_progress sent_sendStartApp cmd_defs
      split: if_splits list.splits)

lemma handleReadData_no_ping:
  assumes "f \<in> set (sent (snd (handleReadData a d)))"
  shows "frame_data f ! 2 \<noteq> CMD_PING"
  using assms
  by (auto simp: handleReadData_def Let_def sent_append sent_progress sent_sendStartApp
      sent_readDone cmd_defs case_prod_beta
      split: if_splits verify_result.splits dest: readForVerify_no_ping)

lemma handleReading_no_ping:
  assumes "f \<in> set (sent (snd (handleReading a d)))"
  shows "frame_data f ! 2 \<noteq> CMD_PING"
  using assms
  by (auto simp: handleReading_def Let_def sent_append sent_progress sent_sendStartApp
      sent_readDone cmd_defs case_prod_beta
      split: if_splits dest: readForVerify_no_ping handleReadData_no_ping)

lemma handleFlashing_no_ping:
  assumes "f \<in> set (sent (snd (handleFlashing a d)))"
  shows "frame_data f ! 2 \<noteq> CMD_PING"
  using assms
  by (auto simp: handleFlashing_def Let_def sent_append sent_progress case_prod_beta
      split: if_splits dest: onFlashReady_no_ping)

lemma handleInit_no_ping:
  assumes "f \<in> set (sent (snd (handleInit a d)))"
  shows "frame_data f ! 2 \<noteq> CMD_PING"
  using assms
  by (auto simp: handleInit_def Let_def sent_append sent_progress sent_sendSetFlashAddress
      mkFrame_def cmd_defs case_prod_beta
      sent_snd_readSize split: if_splits dest: onFlashReady_no_ping)

lemma handleCanMsg_no_ping:
  assumes "f \<in> set (sent (snd (handleCanMsg a msg)))"
  shows "frame_data f ! 2 \<noteq> CMD_PING"
  using handleCanMsg_cases [of a msg] assms handleInit_no_ping [of f a "msg_data msg"]
    handleFlashing_no_ping [of f a "msg_data msg"] handleReading_no_ping [of f a "msg_data msg"]
  by auto

lemma run_no_ping:
  assumes "\<not> pingInterval a" and "f \<in> set (sent (snd (run a xs)))"
  shows "frame_data f ! 2 \<noteq> CMD_PING"
  using assms
proof (induction xs arbitrary: a)
  case Nil
  then show ?case by simp
next
  case (Cons x xs)
  show ?case
  proof (cases "proc a = Running")
    case False
    with Cons.prems show ?thesis by (simp add: run_not_Running)
  next
    case True
    have p: "\<not> pingInterval (fst (step a x))"
      using step_same [of a x] Cons.prems(1) by (simp add: sameOrExited_def)
    from Cons.prems(2) have "f \<in> set (sent (snd (step a x)))
        \<or> f \<in> set (sent (snd (run (fst (step a x)) xs)))"
      by (simp add: run_Cons [OF True] sent_append)
    then show ?thesis
    proof
      assume "f \<in> set (sent (snd (step a x)))"
      with Cons.prems(1) show ?thesis
        by (cases x) (auto simp: pingTick_def dest: handleCanMsg_no_ping)
    next
      assume "f \<in> set (sent (snd (run (fst (step a x)) xs)))"
      with Cons.IH [OF p] show ?thesis .
    qed
  qed
qed

text \<open>
  Claim C9, as amended. \<^verbatim>\<open>PING\<close> frames are sent by the ping timer only, and only while
  it is installed. The timer is cancelled when a \<^verbatim>\<open>BOOTLOADER_START\<close> with the right
  signature and an accepted version (\<open>0x01\<close>, or any version with the force option) is
  handled in Init, and the state is still Init then. Nothing installs it again: once it is
  cancelled, no step of the session sends a \<^verbatim>\<open>PING\<close> frame. (The transitions to
  Flashing and to Reading do not cancel it.)
\<close>

theorem ping_only_while_timer_installed:
  "(forSession a msg \<and> state a = STATE_INIT \<and> msg_data msg ! 2 = CMD_BOOTLOADER_START
      \<and> (msg_data msg ! 4, msg_data msg ! 5, msg_data msg ! 6) = deviceSignature a
      \<and> (msg_data msg ! 7 = BOOTLOADER_CMD_VERSION \<or> arg_F (args a)) \<longrightarrow>
        \<not> pingInterval (fst (handleCanMsg a msg)) \<and> state (fst (handleCanMsg a msg)) = STATE_INIT)
   \<and> (\<not> pingInterval a \<longrightarrow>
        \<not> pingInterval (fst (run a xs))
        \<and> (\<forall>f \<in> set (sent (snd (run a xs))). frame_data f ! 2 \<noteq> CMD_PING))
   \<and> (\<forall>f \<in> set (sent (snd (step a x))). frame_data f ! 2 = CMD_PING \<longrightarrow>
        pingInterval a \<and> x = PingTimer)"
proof -
  have 1: "\<not> pingInterval (fst (handleCanMsg a msg)) \<and> state (fst (handleCanMsg a msg)) = STATE_INIT"
    if "forSession a msg" "state a = STATE_INIT" "msg_data msg ! 2 = CMD_BOOTLOADER_START"
      "(msg_data msg ! 4, msg_data msg ! 5, msg_data msg ! 6) = deviceSignature a"
      "msg_data msg ! 7 = BOOTLOADER_CMD_VERSION \<or> arg_F (args a)"
  proof -
    obtain s0 s1 s2 where sig: "deviceSignature a = (s0, s1, s2)"
      by (cases "deviceSignature a") auto
    with that(4) have d: "msg_data msg ! 4 = s0" "msg_data msg ! 5 = s1" "msg_data msg ! 6 = s2"
      by simp_all
    have "handleCanMsg a msg = handleInit a (msg_data msg)"
      using that(1,2) by (simp add: handleCanMsg_forSession)
    then show ?thesis
      using that(2,3,5) sig d by (auto simp: handleInit_def Let_def byte_defs)
  qed
  have 2: "\<not> pingInterval (fst (run a xs))" if "\<not> pingInterval a"
    using run_same [of a xs] that by (simp add: sameOrExited_def)
  have 3: "pingInterval a \<and> x = PingTimer"
    if "f \<in> set (sent (snd (step a x)))" "frame_data f ! 2 = CMD_PING" for f
    using that by (cases x) (auto simp: pingTick_def dest: handleCanMsg_no_ping split: if_splits)
  from 1 2 3 run_no_ping [of a _ xs] show ?thesis by blast
qed

theorem ping_only_while_timer_installed_witness:
  "pingInterval (exampleApp [])
   \<and> \<not> pingInterval (fst (handleCanMsg (exampleApp [])
          (fromMcu [0x00, 0x42, 0x02, 0, 0x1E, 0x95, 0x0F, 0x01])))
   \<and> sent (snd (run (fst (handleCanMsg (exampleApp [])
                          (fromMcu [0x00, 0x42, 0x02, 0, 0x1E, 0x95, 0x0F, 0x01])))
                  [PingTimer, CanMsg (fromMcu [0x00, 0x42, 0x04, 0, 0, 0, 0, 0]), PingTimer]))
     = [\<lparr>frame_id = Num 0x1FFFFF02, ext = True, rtr = False,
         frame_data = [0x00, 0x42, 0x50, 0x00, 0x00, 0x00, 0x00, 0x00]\<rparr>]
   \<and> frame_data \<lparr>frame_id = Num 0x1FFFFF02, ext = True, rtr = False,
         frame_data = [0x00, 0x42, 0x50, 0x00, 0x00, 0x00, 0x00, 0x00]\<rparr> ! 2 \<noteq> CMD_PING"
proof -
  let ?a = "exampleApp []"
  let ?m = "fromMcu [0x00, 0x42, 0x02, 0, 0x1E, 0x95, 0x0F, 0x01]"
  let ?xs = "[PingTimer, CanMsg (fromMcu [0x00, 0x42, 0x04, 0, 0, 0, 0, 0]), PingTimer]"
  let ?f = "\<lparr>frame_id = Num 0x1FFFFF02, ext = True, rtr = False,
         frame_data = [0x00, 0x42, 0x50, 0x00, 0x00, 0x00, 0x00, 0x00]\<rparr>"
  have h: "forSession ?a ?m \<and> state ?a = STATE_INIT \<and> msg_data ?m ! 2 = CMD_BOOTLOADER_START
      \<and> (msg_data ?m ! 4, msg_data ?m ! 5, msg_data ?m ! 6) = deviceSignature ?a
      \<and> (msg_data ?m ! 7 = BOOTLOADER_CMD_VERSION \<or> arg_F (args ?a))"
    by (simp add: example_defs forSession_def cmd_defs)
  note 1 = ping_only_while_timer_installed [of ?a ?m, THEN conjunct1, THEN mp, OF h,
      THEN conjunct1]
  note 2 = ping_only_while_timer_installed [of "fst (handleCanMsg ?a ?m)" _ ?xs,
      THEN conjunct2, THEN conjunct1, THEN mp, OF 1, THEN conjunct2]
  have s: "sent (snd (run (fst (handleCanMsg ?a ?m)) ?xs)) = [?f]"
    by (simp add: run.simps example_defs handleCanMsg_def handleInit_def onFlashReady_def
        noMoreData_def currentBlock_def shl_def cmdFrame_def mkFrame_def pingTick_def
        progressStop_def Let_def cmd_defs byte_defs)
  then have "?f \<in> set (sent (snd (run (fst (handleCanMsg ?a ?m)) ?xs)))"
    by simp
  from 2 [rule_format, OF this] have "frame_data ?f ! 2 \<noteq> CMD_PING" .
  moreover have "pingInterval ?a" by (simp add: example_defs)
  ultimately show ?thesis using 1 s by blast
qed

theorem ping_after_transition_counterexample:
  "state (exampleApp [(0x0000, [0xAA, 0xBB, 0xCC, 0xDD])]) = STATE_INIT
   \<and> state (fst (step (exampleApp [(0x0000, [0xAA, 0xBB, 0xCC, 0xDD])])
                (CanMsg (fromMcu [0x00, 0x42, 0x04, 0, 0, 0, 0, 0])))) = STATE_FLASHING
   \<and> sent (snd (step (fst (step (exampleApp [(0x0000, [0xAA, 0xBB, 0xCC, 0xDD])])
                            (CanMsg (fromMcu [0x00, 0x42, 0x04, 0, 0, 0, 0, 0]))))
                    PingTimer))
     = [\<lparr>frame_id = Num 0x1FFFFF02, ext = True, rtr = False,
         frame_data = [0x00, 0x42, 0x00, 0x00, 0x00, 0x00, 0x00, 0x00]\<rparr>]"
  by (simp add: example_defs handleCanMsg_def handleInit_def onFlashReady_def
      sendFlashData_def noMoreData_def currentBlock_def nextKey_def curAddrRemote_def
      shl_def cmdFrame_def mkFrame_def pingTick_def addDataBytes_numeral
      Let_def cmd_defs byte_defs)













section \<open>Reading the whole flash\<close>

lemma written_simps [simp]:
  "written (sendStartApp a) = []" "written (progressStart a n) = []"
  "written (progressIncrement a k) = []" "written (progressStop a) = []"
  "written (sendSetFlashAddress a addr) = []"
  "written (readDone a) = [map toUint8 (readDataArr a)]"
  by (simp_all add: sendStartApp_def progressStart_def progressIncrement_def progressStop_def
      sendSetFlashAddress_def readDone_def written_append)

lemma written_snd_readSize [simp]: "written (snd (readSize a d)) = []"
  by (simp add: readSize_def split: option.splits jsnum.splits)

















end
